theory Spec2Isabelle
  imports Main "HOL-Library.Code_Target_Nat" "HOL-Library.Sublist"
begin

section \<open>Text\<close>

text \<open>
  Python strings are sequences of Unicode code points. A character is modelled by its
  code point, a string by the list of its code points, so \<open>length\<close> counts what
  Python's \<open>len\<close> counts.
\<close>

type_synonym uchar = nat
type_synonym ustr = "uchar list"

section \<open>parse_chinese_number\<close>

text \<open>
  The dictionary \<open>chinese_to_arabic\<close> of the source, in its order: the numerals
  ling (U+96F6), yi (U+4E00), er (U+4E8C), san (U+4E09), si (U+56DB), wu (U+4E94),
  liu (U+516D), qi (U+4E03), ba (U+516B), jiu (U+4E5D), shi (U+5341), bai (U+767E)
  and qian (U+5343).
\<close>

definition chinese_to_arabic :: "(uchar \<times> int) list" where
  "chinese_to_arabic =
     [(0x96F6, 0), (0x4E00, 1), (0x4E8C, 2), (0x4E09, 3), (0x56DB, 4), (0x4E94, 5),
      (0x516D, 6), (0x4E03, 7), (0x516B, 8), (0x4E5D, 9), (0x5341, 10),
      (0x767E, 100), (0x5343, 1000)]"

text \<open>The two group separators: wan (U+4E07) and yi (U+4EBF).\<close>

definition ch_wan :: uchar where "ch_wan = 0x4E07"
definition ch_yi :: uchar where "ch_yi = 0x4EBF"

text \<open>
  One iteration of the loop \<open>for char in text\<close> on the pair \<open>(result, temp)\<close>.
  Python's \<open>temp * 10 + value if temp else value\<close> tests \<open>temp\<close> for being non-zero.
\<close>

fun pcn_step :: "int \<times> int \<Rightarrow> uchar \<Rightarrow> int \<times> int" where
  "pcn_step (result, temp) char =
     (case map_of chinese_to_arabic char of
        Some val \<Rightarrow>
          if val \<ge> 100 then (result, temp * val)
          else if val \<ge> 10 then (result, if temp \<noteq> 0 then temp * 10 + val else val)
          else (result, temp + val)
      | None \<Rightarrow>
          if char = ch_wan then (result + temp * 10000, 0)
          else if char = ch_yi then (result + temp * 100000000, 0)
          else (result, temp))"

definition pcn_loop :: "ustr \<Rightarrow> int \<times> int" where
  "pcn_loop text = foldl pcn_step (0, 0) text"

text \<open>
  The function itself. Its \<open>try\<close> block holds integer arithmetic on unbounded integers
  and dictionary lookups guarded by \<open>in\<close>, none of which raises, so the \<open>except\<close>
  branch has no counterpart here. \<open>None\<close> is Python's \<open>None\<close>.
\<close>

definition parse_chinese_number :: "ustr \<Rightarrow> int option" where
  "parse_chinese_number text =
     (if text = [] then None
      else (case pcn_loop text of
              (result, temp) \<Rightarrow>
                (let result' = result + temp
                 in if result' > 0 then Some result' else None)))"


definition pcn_total :: "ustr \<Rightarrow> int" where
  "pcn_total text = (case pcn_loop text of (result, temp) \<Rightarrow> result + temp)"

text \<open>
  The characters the loop reacts to: the keys of the dictionary and the two separators.
  Every other character falls through both \<open>elif\<close> branches.
\<close>

definition recognized :: "uchar \<Rightarrow> bool" where
  "recognized c = (c \<in> set (map fst chinese_to_arabic) \<or> c = ch_wan \<or> c = ch_yi)"

subsection \<open>The accumulation rule in the specification's words\<close>

text \<open>
  The second reading of the same routine, written from the specification (section 4.1):
  a character is a digit-value character (value 0 to 9), the ten multiplier, a hundred or
  thousand multiplier, a group separator (ten thousand, hundred million), or none of these.
\<close>

datatype numeral_kind =
  DigitValue int | TenMultiplier | BigMultiplier int | GroupSeparator int | Unrecognized

definition numeral_kind_of :: "uchar \<Rightarrow> numeral_kind" where
  "numeral_kind_of c =
     (if c = 0x96F6 then DigitValue 0 else if c = 0x4E00 then DigitValue 1
      else if c = 0x4E8C then DigitValue 2 else if c = 0x4E09 then DigitValue 3
      else if c = 0x56DB then DigitValue 4 else if c = 0x4E94 then DigitValue 5
      else if c = 0x516D then DigitValue 6 else if c = 0x4E03 then DigitValue 7
      else if c = 0x516B then DigitValue 8 else if c = 0x4E5D then DigitValue 9
      else if c = 0x5341 then TenMultiplier
      else if c = 0x767E then BigMultiplier 100
      else if c = 0x5343 then BigMultiplier 1000
      else if c = 0x4E07 then GroupSeparator 10000
      else if c = 0x4EBF then GroupSeparator 100000000
      else Unrecognized)"

fun spec_normalize_step :: "int \<times> int \<Rightarrow> uchar \<Rightarrow> int \<times> int" where
  "spec_normalize_step (result, acc) c =
     (case numeral_kind_of c of
        DigitValue v \<Rightarrow> (result, acc + v)
      | BigMultiplier v \<Rightarrow> (result, acc * v)
      | TenMultiplier \<Rightarrow> (result, if acc \<noteq> 0 then acc * 10 + 10 else 10)
      | GroupSeparator g \<Rightarrow> (result + acc * g, 0)
      | Unrecognized \<Rightarrow> (result, acc))"

definition spec_normalize_total :: "ustr \<Rightarrow> int" where
  "spec_normalize_total text =
     (case foldl spec_normalize_step (0, 0) text of (result, acc) \<Rightarrow> result + acc)"

definition spec_normalize :: "ustr \<Rightarrow> int option" where
  "spec_normalize text =
     (if text = [] then None
      else if spec_normalize_total text > 0 then Some (spec_normalize_total text)
      else None)"

section \<open>Characters and strings of the Python runtime\<close>

text \<open>
  The white-space characters of \<open>str.strip()\<close> and of the pattern escape \<open>\s\<close>
  (Python's \<open>str.isspace\<close>), and the decimal digits of \<open>\d\<close> (Python's
  \<open>str.isdecimal\<close>, Unicode category Nd), as inclusive ranges of code points
  (Unicode 14.0).
\<close>

definition in_ranges :: "(uchar \<times> uchar) list \<Rightarrow> uchar \<Rightarrow> bool" where
  "in_ranges rs c = list_ex (\<lambda>(lo, hi). lo \<le> c \<and> c \<le> hi) rs"

definition whitespace_ranges :: "(uchar \<times> uchar) list" where
  "whitespace_ranges =
     [(0x9, 0xD), (0x1C, 0x20), (0x85, 0x85), (0xA0, 0xA0), (0x1680, 0x1680),
      (0x2000, 0x200A), (0x2028, 0x2029), (0x202F, 0x202F), (0x205F, 0x205F),
      (0x3000, 0x3000)]"

definition decimal_ranges :: "(uchar \<times> uchar) list" where
  "decimal_ranges =
     [(0x30, 0x39), (0x660, 0x669), (0x6F0, 0x6F9), (0x7C0, 0x7C9), (0x966, 0x96F),
      (0x9E6, 0x9EF), (0xA66, 0xA6F), (0xAE6, 0xAEF), (0xB66, 0xB6F), (0xBE6, 0xBEF),
      (0xC66, 0xC6F), (0xCE6, 0xCEF), (0xD66, 0xD6F), (0xDE6, 0xDEF), (0xE50, 0xE59),
      (0xED0, 0xED9), (0xF20, 0xF29), (0x1040, 0x1049), (0x1090, 0x1099),
      (0x17E0, 0x17E9), (0x1810, 0x1819), (0x1946, 0x194F), (0x19D0, 0x19D9),
      (0x1A80, 0x1A89), (0x1A90, 0x1A99), (0x1B50, 0x1B59), (0x1BB0, 0x1BB9),
      (0x1C40, 0x1C49), (0x1C50, 0x1C59), (0xA620, 0xA629), (0xA8D0, 0xA8D9),
      (0xA900, 0xA909), (0xA9D0, 0xA9D9), (0xA9F0, 0xA9F9), (0xAA50, 0xAA59),
      (0xABF0, 0xABF9), (0xFF10, 0xFF19), (0x104A0, 0x104A9), (0x10D30, 0x10D39),
      (0x11066, 0x1106F), (0x110F0, 0x110F9), (0x11136, 0x1113F), (0x111D0, 0x111D9),
      (0x112F0, 0x112F9), (0x11450, 0x11459), (0x114D0, 0x114D9), (0x11650, 0x11659),
      (0x116C0, 0x116C9), (0x11730, 0x11739), (0x118E0, 0x118E9), (0x11950, 0x11959),
      (0x11C50, 0x11C59), (0x11D50, 0x11D59), (0x11DA0, 0x11DA9), (0x16A60, 0x16A69),
      (0x16AC0, 0x16AC9), (0x16B50, 0x16B59), (0x1D7CE, 0x1D7FF), (0x1E140, 0x1E149),
      (0x1E2F0, 0x1E2F9), (0x1E950, 0x1E959), (0x1FBF0, 0x1FBF9)]"

definition is_space :: "uchar \<Rightarrow> bool" where
  "is_space c = in_ranges whitespace_ranges c"

definition is_decimal :: "uchar \<Rightarrow> bool" where
  "is_decimal c = in_ranges decimal_ranges c"

definition newline :: uchar where
  "newline = 10"

text \<open>\<open>s.strip()\<close>: white space removed at both ends.\<close>

definition strip :: "ustr \<Rightarrow> ustr" where
  "strip s = rev (dropWhile is_space (rev (dropWhile is_space s)))"

text \<open>
  \<open>s.split('\n')\<close>: the pieces between line feeds; an empty string gives one empty piece
  and a final line feed gives a final empty piece.
\<close>

fun split_lines :: "ustr \<Rightarrow> ustr list" where
  "split_lines [] = [[]]"
| "split_lines (c # cs) =
     (if c = newline then [] # split_lines cs
      else (case split_lines cs of
              [] \<Rightarrow> [[c]]
            | l # ls \<Rightarrow> (c # l) # ls))"

text \<open>
  \<open>s.rfind(ch)\<close>: the highest index of \<open>ch\<close> in \<open>s\<close>, or \<open>-1\<close>. The source calls
  \<open>content.rfind('\n', 0, start)\<close>, which searches the slice \<open>content[0:start]\<close>.
\<close>

fun rfind :: "uchar \<Rightarrow> ustr \<Rightarrow> int" where
  "rfind ch [] = - 1"
| "rfind ch (x # xs) =
     (let r = rfind ch xs
      in if r \<ge> 0 then r + 1 else if x = ch then 0 else - 1)"

text \<open>\<open>s[i:j]\<close> for \<open>0 \<le> i\<close> and \<open>0 \<le> j\<close>; Python clips both to the length.\<close>

definition slice :: "ustr \<Rightarrow> nat \<Rightarrow> nat \<Rightarrow> ustr" where
  "slice s i j = drop i (take j s)"

text \<open>\<open>str(n)\<close> for a natural number: its decimal digits.\<close>

fun str_nat :: "nat \<Rightarrow> ustr" where
  "str_nat n = (if n < 10 then [48 + n] else str_nat (n div 10) @ [48 + n mod 10])"

declare str_nat.simps [simp del]

text \<open>\<open>str(n)\<close> for an integer: a minus sign (code point 45) before the digits.\<close>

definition str_int :: "int \<Rightarrow> ustr" where
  "str_int n = (if n < 0 then 45 # str_nat (nat (- n)) else str_nat (nat n))"

text \<open>
  \<open>s.zfill(width)\<close>: a string at least \<open>width\<close> long is returned as it is; a shorter one
  is filled with the digit zero (code point 48) on the left, after a leading sign
  \<open>+\<close> (43) or \<open>-\<close> (45) when there is one.
\<close>

definition zfill :: "nat \<Rightarrow> ustr \<Rightarrow> ustr" where
  "zfill width s =
     (if length s \<ge> width then s
      else (let fill = replicate (width - length s) 48
            in case s of
                 [] \<Rightarrow> fill
               | c # cs \<Rightarrow> if c = 43 \<or> c = 45 then c # fill @ cs else fill @ s))"

section \<open>The patterns of the source and their matching\<close>

text \<open>
  The pattern strings of the source use a small part of Python's \<open>re\<close> language: the
  anchors \<open>^\<close> and \<open>$\<close>, literal characters, bracket expressions, \<open>\d\<close>, \<open>\s\<close> and
  \<open>.\<close>, the greedy repetitions \<open>*\<close> and \<open>+\<close> of one of these, and at most one capturing
  group. A pattern is kept in parsed form, as the list of its items in order, the
  parentheses of the group being items of their own.
\<close>

datatype cclass =
  Lit uchar
  | Bracket "(uchar \<times> uchar) list"
  | Decimal
  | Whitespace
  | AnyButNewline

datatype item = Bol | Eol | One cclass | Many0 cclass | Many1 cclass | GOpen | GClose

type_synonym regex = "item list"

fun in_class :: "cclass \<Rightarrow> uchar \<Rightarrow> bool" where
  "in_class (Lit a) c = (c = a)"
| "in_class (Bracket rs) c = in_ranges rs c"
| "in_class Decimal c = is_decimal c"
| "in_class Whitespace c = is_space c"
| "in_class AnyButNewline c = (c \<noteq> newline)"

text \<open>The first success in a list of attempts, as backtracking finds it.\<close>

fun first_some :: "'a option list \<Rightarrow> 'a option" where
  "first_some [] = None"
| "first_some (None # xs) = first_some xs"
| "first_some (Some x # xs) = Some x"

text \<open>The numbers \<open>hi, hi - 1, \<dots>, lo\<close>: the repetition counts a greedy repetition tries.\<close>

fun count_down :: "nat \<Rightarrow> nat \<Rightarrow> nat list" where
  "count_down lo 0 = (if lo = 0 then [0] else [])"
| "count_down lo (Suc n) = (if lo \<le> Suc n then Suc n # count_down lo n else [])"

text \<open>
  The character before the current position after \<open>k\<close> characters of \<open>run\<close> have been
  consumed.
\<close>

definition prev_after :: "uchar option \<Rightarrow> ustr \<Rightarrow> nat \<Rightarrow> uchar option" where
  "prev_after prev run k = (if k = 0 then prev else Some (run ! (k - 1)))"

text \<open>
  One attempt to match at one position, with backtracking. \<open>ml\<close> is the flag
  \<open>re.MULTILINE\<close>; \<open>adv\<close> says that an empty match is not accepted here (the engine
  sets it for the attempt that follows an empty match); \<open>prev\<close> is the character before
  the current position (\<open>None\<close> at the start of the string) and \<open>rest\<close> the text from the
  current position on; \<open>acc\<close> is the text matched so far, \<open>g\<close> its length when the group
  was opened and \<open>cap\<close> the text the group captured. The result is the matched text and the
  captured text.
\<close>

fun rx_exec ::
  "bool \<Rightarrow> bool \<Rightarrow> regex \<Rightarrow> uchar option \<Rightarrow> ustr \<Rightarrow> ustr \<Rightarrow> nat \<Rightarrow> ustr option
     \<Rightarrow> (ustr \<times> ustr option) option" where
  "rx_exec ml adv [] prev rest acc g cap =
     (if adv \<and> acc = [] then None else Some (acc, cap))"
| "rx_exec ml adv (Bol # r) prev rest acc g cap =
     (if prev = None \<or> (ml \<and> prev = Some newline)
      then rx_exec ml adv r prev rest acc g cap else None)"
| "rx_exec ml adv (Eol # r) prev rest acc g cap =
     (if rest = [] \<or> (ml \<and> hd rest = newline) \<or> (\<not> ml \<and> rest = [newline])
      then rx_exec ml adv r prev rest acc g cap else None)"
| "rx_exec ml adv (One c # r) prev rest acc g cap =
     (case rest of
        [] \<Rightarrow> None
      | x # xs \<Rightarrow>
          if in_class c x then rx_exec ml adv r (Some x) xs (acc @ [x]) g cap else None)"
| "rx_exec ml adv (Many0 c # r) prev rest acc g cap =
     (let run = takeWhile (in_class c) rest
      in first_some
           (map (\<lambda>k. rx_exec ml adv r (prev_after prev run k) (drop k rest)
                        (acc @ take k run) g cap)
              (count_down 0 (length run))))"
| "rx_exec ml adv (Many1 c # r) prev rest acc g cap =
     (let run = takeWhile (in_class c) rest
      in first_some
           (map (\<lambda>k. rx_exec ml adv r (prev_after prev run k) (drop k rest)
                        (acc @ take k run) g cap)
              (count_down 1 (length run))))"
| "rx_exec ml adv (GOpen # r) prev rest acc g cap =
     rx_exec ml adv r prev rest acc (length acc) cap"
| "rx_exec ml adv (GClose # r) prev rest acc g cap =
     rx_exec ml adv r prev rest acc g (Some (drop g acc))"

text \<open>
  A match object, as far as the source reads it: \<open>match.start()\<close>, \<open>match.group(0)\<close> and
  \<open>match.groups()\<close>. A group that took no part in the match is \<open>None\<close> in Python.
\<close>

record rmatch =
  m_start :: nat
  m_group0 :: ustr
  m_groups :: "ustr option list"

definition has_group :: "regex \<Rightarrow> bool" where
  "has_group rx = (GOpen \<in> set rx)"

definition mk_match :: "regex \<Rightarrow> nat \<Rightarrow> ustr \<times> ustr option \<Rightarrow> rmatch" where
  "mk_match rx pos res =
     \<lparr>m_start = pos, m_group0 = fst res,
      m_groups = (if has_group rx then [snd res] else [])\<rparr>"

text \<open>\<open>re.match(pattern, s)\<close> without flags, read as a truth value.\<close>

definition re_match :: "regex \<Rightarrow> ustr \<Rightarrow> bool" where
  "re_match rx s = (rx_exec False False rx None s [] 0 None \<noteq> None)"

subsection \<open>DEFAULT_PATTERNS\<close>

text \<open>
  The characters of the patterns: di (U+7B2C), zhang (U+7AE0), juan (U+5377) and the
  thirteen numerals of the bracket expressions, in the order of the source.
\<close>

definition ch_di :: uchar where
  "ch_di = 0x7B2C"

definition ch_zhang :: uchar where
  "ch_zhang = 0x7AE0"

definition ch_juan :: uchar where
  "ch_juan = 0x5377"

definition numeral_chars :: "(uchar \<times> uchar) list" where
  "numeral_chars =
     map (\<lambda>c. (c, c))
       [0x96F6, 0x4E00, 0x4E8C, 0x4E09, 0x56DB, 0x4E94, 0x516D, 0x4E03, 0x516B, 0x4E5D,
        0x5341, 0x767E, 0x5343]"

definition zhang_or_juan :: cclass where
  "zhang_or_juan = Bracket [(ch_zhang, ch_zhang), (ch_juan, ch_juan)]"

text \<open>\<open>^di([numerals]+)[zhang juan]\<close>\<close>

definition pat_chinese :: regex where
  "pat_chinese =
     [Bol, One (Lit ch_di), GOpen, Many1 (Bracket numeral_chars), GClose, One zhang_or_juan]"

text \<open>\<open>^di(\d+)[zhang juan]\<close>\<close>

definition pat_arabic :: regex where
  "pat_arabic = [Bol, One (Lit ch_di), GOpen, Many1 Decimal, GClose, One zhang_or_juan]"

text \<open>\<open>^Chapter\s+(\d+)\<close>\<close>

definition pat_Chapter :: regex where
  "pat_Chapter =
     [Bol, One (Lit 67), One (Lit 104), One (Lit 97), One (Lit 112), One (Lit 116),
      One (Lit 101), One (Lit 114), Many1 Whitespace, GOpen, Many1 Decimal, GClose]"

text \<open>\<open>^chapter\s+(\d+)\<close>\<close>

definition pat_chapter :: regex where
  "pat_chapter =
     [Bol, One (Lit 99), One (Lit 104), One (Lit 97), One (Lit 112), One (Lit 116),
      One (Lit 101), One (Lit 114), Many1 Whitespace, GOpen, Many1 Decimal, GClose]"

text \<open>\<open>^di[0-9numerals]+zhang.*$\<close>\<close>

definition pat_loose :: regex where
  "pat_loose =
     [Bol, One (Lit ch_di), Many1 (Bracket ((48, 57) # numeral_chars)), One (Lit ch_zhang),
      Many0 AnyButNewline, Eol]"

text \<open>\<open>^\s*\d+\.\s+\<close>\<close>

definition pat_dotted :: regex where
  "pat_dotted = [Bol, Many0 Whitespace, Many1 Decimal, One (Lit 46), Many1 Whitespace]"

text \<open>\<open>^\s*\d+\s+\<close>\<close>

definition pat_number :: regex where
  "pat_number = [Bol, Many0 Whitespace, Many1 Decimal, Many1 Whitespace]"

text \<open>
  The list of the source, in its order of priority. Each entry pairs the pattern string
  (its characters as code points) with its parsed form.
\<close>

definition DEFAULT_PATTERNS :: "(ustr \<times> regex) list" where
  "DEFAULT_PATTERNS =
     [([94, 0x7B2C, 40, 91, 0x96F6, 0x4E00, 0x4E8C, 0x4E09, 0x56DB, 0x4E94, 0x516D, 0x4E03,
        0x516B, 0x4E5D, 0x5341, 0x767E, 0x5343, 93, 43, 41, 91, 0x7AE0, 0x5377, 93],
       pat_chinese),
      ([94, 0x7B2C, 40, 92, 100, 43, 41, 91, 0x7AE0, 0x5377, 93], pat_arabic),
      ([94, 67, 104, 97, 112, 116, 101, 114, 92, 115, 43, 40, 92, 100, 43, 41], pat_Chapter),
      ([94, 99, 104, 97, 112, 116, 101, 114, 92, 115, 43, 40, 92, 100, 43, 41], pat_chapter),
      ([94, 0x7B2C, 91, 48, 45, 57, 0x96F6, 0x4E00, 0x4E8C, 0x4E09, 0x56DB, 0x4E94, 0x516D,
        0x4E03, 0x516B, 0x4E5D, 0x5341, 0x767E, 0x5343, 93, 43, 0x7AE0, 46, 42, 36],
       pat_loose),
      ([94, 92, 115, 42, 92, 100, 43, 92, 46, 92, 115, 43], pat_dotted),
      ([94, 92, 115, 42, 92, 100, 43, 92, 115, 43], pat_number)]"

subsection \<open>finditer\<close>

text \<open>
  The matches that start at one position. The engine first tries the pattern there; after
  an empty match it tries once more at the same position, where only a non-empty match is
  accepted.
\<close>

definition attempts_at :: "regex \<Rightarrow> uchar option \<Rightarrow> ustr \<Rightarrow> nat \<Rightarrow> rmatch list" where
  "attempts_at rx prev rest pos =
     (case rx_exec True False rx prev rest [] 0 None of
        None \<Rightarrow> []
      | Some res \<Rightarrow>
          if fst res = []
          then mk_match rx pos res #
                 (case rx_exec True True rx prev rest [] 0 None of
                    None \<Rightarrow> []
                  | Some res' \<Rightarrow> [mk_match rx pos res'])
          else [mk_match rx pos res])"

text \<open>
  \<open>pattern.finditer(content)\<close> for a pattern compiled with \<open>re.MULTILINE\<close>: the scan goes
  through the positions from left to right; \<open>skip\<close> counts the positions still covered by
  the last match, where no match may start.
\<close>

fun finditer_scan :: "regex \<Rightarrow> uchar option \<Rightarrow> ustr \<Rightarrow> nat \<Rightarrow> nat \<Rightarrow> rmatch list" where
  "finditer_scan rx prev [] pos skip =
     (if skip > 0 then [] else attempts_at rx prev [] pos)"
| "finditer_scan rx prev (x # xs) pos skip =
     (if skip > 0 then finditer_scan rx (Some x) xs (Suc pos) (skip - 1)
      else (let ms = attempts_at rx prev (x # xs) pos;
                n = (case ms of [] \<Rightarrow> 0 | _ \<Rightarrow> length (m_group0 (last ms)))
            in ms @ finditer_scan rx (Some x) xs (Suc pos) (n - 1)))"

definition finditer :: "regex \<Rightarrow> ustr \<Rightarrow> rmatch list" where
  "finditer rx content = finditer_scan rx None content 0 0"

section \<open>detect_encoding\<close>

text \<open>
  The codecs belong to the Python runtime: \<open>decodes e bs\<close> says that the bytes \<open>bs\<close>
  decode under the encoding \<open>e\<close> without a \<open>UnicodeDecodeError\<close>. The loop returns at the
  first candidate that decodes; \<open>utf-8\<close> is returned after the loop.
\<close>

type_synonym bytes = "nat list"

definition encodings :: "string list" where
  "encodings =
     [''utf-8'', ''utf-8-sig'', ''gbk'', ''gb2312'', ''gb18030'', ''big5'', ''shift_jis'']"

fun try_encodings :: "(string \<Rightarrow> bytes \<Rightarrow> bool) \<Rightarrow> bytes \<Rightarrow> string list \<Rightarrow> string option" where
  "try_encodings decodes bs [] = None"
| "try_encodings decodes bs (encoding # es) =
     (if decodes encoding bs then Some encoding else try_encodings decodes bs es)"

definition detect_encoding :: "(string \<Rightarrow> bytes \<Rightarrow> bool) \<Rightarrow> bytes \<Rightarrow> string" where
  "detect_encoding decodes bs =
     (case try_encodings decodes bs encodings of
        Some encoding \<Rightarrow> encoding
      | None \<Rightarrow> ''utf-8'')"

section \<open>detect_chapter_pattern\<close>

text \<open>The inner loop: does the pattern match the start of some stripped line?\<close>

fun matches_some_line :: "regex \<Rightarrow> ustr list \<Rightarrow> bool" where
  "matches_some_line rx [] = False"
| "matches_some_line rx (line # lines) =
     (if re_match rx (strip line) then True else matches_some_line rx lines)"

text \<open>
  The outer loop over the patterns. The result is the pair of the source: the pattern (to
  be compiled with \<open>re.MULTILINE\<close>, which \<open>finditer\<close> above assumes) and the pattern
  string, or \<open>None\<close> and the empty string.
\<close>

fun first_matching_pattern :: "(ustr \<times> regex) list \<Rightarrow> ustr list \<Rightarrow> regex option \<times> ustr" where
  "first_matching_pattern [] lines = (None, [])"
| "first_matching_pattern ((pattern, rx) # ps) lines =
     (if matches_some_line rx lines then (Some rx, pattern)
      else first_matching_pattern ps lines)"

definition scanned_lines :: "ustr \<Rightarrow> ustr list" where
  "scanned_lines content = take 100 (split_lines content)"

definition detect_chapter_pattern :: "ustr \<Rightarrow> regex option \<times> ustr" where
  "detect_chapter_pattern content =
     first_matching_pattern DEFAULT_PATTERNS (scanned_lines content)"

section \<open>split_chapters\<close>

datatype py_error =
  FileNotFoundError
  | ValueError_invalid_pattern ustr
  | ValueError_no_pattern
  | AttributeError

record chapter_entry =
  ch_start :: nat
  ch_end :: nat
  ch_title :: ustr
  ch_filename :: ustr
  ch_num :: ustr

text \<open>
  \<open>chapter_num\<close>: the first group when the pattern has groups, else the count of chapters
  so far plus one, as a string. A first group that took no part in the match makes it
  \<open>None\<close>.
\<close>

definition chapter_num_of :: "rmatch \<Rightarrow> nat \<Rightarrow> ustr option" where
  "chapter_num_of m n =
     (case m_groups m of
        [] \<Rightarrow> Some (str_nat (n + 1))
      | group1 # _ \<Rightarrow> group1)"

text \<open>
  \<open>full_title_line\<close>: the text from the start of the line of the match to the start of
  the match, stripped; the stripped match when that is empty.
\<close>

definition line_start_of :: "ustr \<Rightarrow> nat \<Rightarrow> nat" where
  "line_start_of content start =
     (if newline \<in> set (take start content)
      then nat (rfind newline (take start content) + 1) else 0)"

definition full_title_line_of :: "ustr \<Rightarrow> rmatch \<Rightarrow> ustr" where
  "full_title_line_of content m =
     (let start = m_start m;
          chapter_title = strip (m_group0 m);
          line_start = line_start_of content start;
          full_title_line = strip (slice content line_start start)
      in if full_title_line = [] then chapter_title else full_title_line)"

text \<open>
  \<open>safe_title\<close>: the characters \<open>< > : " / \ | ? *\<close> replaced by an underscore, stripped,
  cut to 50 characters, and replaced by di, number, zhang when the title line starts with
  di and the cut title does not start with di and a digit. \<open>str(None)\<close> is the text
  \<open>None\<close>.
\<close>

definition unsafe_chars :: "uchar list" where
  "unsafe_chars = [60, 62, 58, 34, 47, 92, 124, 63, 42]"

definition safe_title_of :: "ustr \<Rightarrow> ustr option \<Rightarrow> ustr" where
  "safe_title_of full_title_line chapter_num =
     (let safe_title =
            take 50 (strip (map (\<lambda>c. if c \<in> set unsafe_chars then 95 else c) full_title_line))
      in if re_match [Bol, One (Lit ch_di)] full_title_line
            \<and> \<not> re_match [Bol, One (Lit ch_di), Many1 Decimal] safe_title
         then (case (case chapter_num of None \<Rightarrow> None | Some t \<Rightarrow> parse_chinese_number t) of
                 Some num \<Rightarrow> [ch_di] @ str_int num @ [ch_zhang]
               | None \<Rightarrow>
                   [ch_di] @ (case chapter_num of None \<Rightarrow> [78, 111, 110, 101] | Some t \<Rightarrow> t)
                     @ [ch_zhang])
         else safe_title)"

text \<open>
  The file name for a chapter number: di, the number filled to four characters, zhang and
  \<open>.md\<close>.
\<close>

definition filename_of :: "ustr \<Rightarrow> ustr" where
  "filename_of chapter_num = [ch_di] @ zfill 4 chapter_num @ [ch_zhang, 46, 109, 100]"

text \<open>
  One iteration of the loop over the matches: \<open>m\<close> is the match, \<open>next\<close> the match after
  it when there is one, \<open>n\<close> the number of chapters collected so far. \<open>safe_title\<close> is
  computed and not stored. When \<open>chapter_num\<close> is \<open>None\<close>, the call \<open>chapter_num.zfill(4)\<close>
  raises \<open>AttributeError\<close>.
\<close>

definition make_chapter :: "ustr \<Rightarrow> rmatch \<Rightarrow> rmatch option \<Rightarrow> nat \<Rightarrow> py_error + chapter_entry" where
  "make_chapter content m next n =
     (let start = m_start m;
          chapter_num = chapter_num_of m n;
          full_title_line = full_title_line_of content m;
          end = (case next of Some m' \<Rightarrow> m_start m' | None \<Rightarrow> length content);
          safe_title = safe_title_of full_title_line chapter_num
      in case chapter_num of
           None \<Rightarrow> Inl AttributeError
         | Some t \<Rightarrow>
             Inr \<lparr>ch_start = start, ch_end = end, ch_title = full_title_line,
                  ch_filename = filename_of t, ch_num = t\<rparr>)"

fun build_chapters :: "ustr \<Rightarrow> rmatch list \<Rightarrow> chapter_entry list \<Rightarrow> py_error + chapter_entry list" where
  "build_chapters content [] chapters = Inr chapters"
| "build_chapters content (m # ms) chapters =
     (case make_chapter content m (case ms of [] \<Rightarrow> None | m' # _ \<Rightarrow> Some m')
             (length chapters) of
        Inl e \<Rightarrow> Inl e
      | Inr c \<Rightarrow> build_chapters content ms (chapters @ [c]))"

text \<open>
  The step after the loop: \<open>last_end\<close> is the length of the content, and a chapter is
  appended when \<open>last_end\<close> is less than the length of the content and the rest is not
  blank. Its title is hou-ji, slash, wei-sheng.
\<close>

definition add_epilogue :: "ustr \<Rightarrow> chapter_entry list \<Rightarrow> chapter_entry list" where
  "add_epilogue content chapters =
     (let last_end = length content
      in if last_end < length content
         then (let remaining = strip (drop last_end content)
               in if remaining \<noteq> []
                  then chapters @
                    [\<lparr>ch_start = last_end, ch_end = length content,
                      ch_title = [0x540E, 0x8BB0, 47, 0x5C3E, 0x58F0],
                      ch_filename = filename_of (str_nat (length chapters + 1)),
                      ch_num = str_nat (length chapters + 1)\<rparr>]
                  else chapters)
         else chapters)"

text \<open>The segmentation: the loop over the matches and the step after it.\<close>

definition segment :: "ustr \<Rightarrow> rmatch list \<Rightarrow> py_error + chapter_entry list" where
  "segment content chapter_matches =
     (case build_chapters content chapter_matches [] of
        Inl e \<Rightarrow> Inl e
      | Inr chapters \<Rightarrow> Inr (add_epilogue content chapters))"

text \<open>
  Writing: each chapter's file holds the stripped slice of the content. The files are
  written in order; a later write to a name already written replaces the earlier file.
\<close>

definition chapter_file :: "ustr \<Rightarrow> chapter_entry \<Rightarrow> ustr \<times> ustr" where
  "chapter_file content c = (ch_filename c, strip (slice content (ch_start c) (ch_end c)))"

text \<open>
  What a run meets outside the program: whether the input path exists, the bytes of the
  file, the codecs (\<open>rt_decodes\<close> as above; \<open>rt_decode\<close> reads with
  \<open>errors='replace'\<close>, which does not fail), and \<open>re.compile\<close> for a pattern given by the
  user, with \<open>re.MULTILINE\<close>: either the message of \<open>re.error\<close> or the compiled pattern,
  taken as its \<open>finditer\<close>.
\<close>

record runtime =
  rt_exists :: bool
  rt_bytes :: bytes
  rt_decodes :: "string \<Rightarrow> bytes \<Rightarrow> bool"
  rt_decode :: "string \<Rightarrow> bytes \<Rightarrow> ustr"
  rt_compile :: "ustr \<Rightarrow> ustr + (ustr \<Rightarrow> rmatch list)"

record split_result =
  pattern_used :: ustr
  encoding_used :: string
  chapters_found :: nat
  files_created :: "ustr list"

text \<open>
  The pattern step and \<open>finditer\<close>: the chapter matches with the description of the
  pattern, or the error raised. A custom pattern is used when it is neither \<open>None\<close> nor
  empty (\<open>if custom_pattern:\<close>); its description is zi-ding-yi, colon, space and the
  pattern.
\<close>

definition detected_matches :: "ustr \<Rightarrow> py_error + (rmatch list \<times> ustr)" where
  "detected_matches content =
     (case detect_chapter_pattern content of
        (None, pattern_desc) \<Rightarrow> Inl ValueError_no_pattern
      | (Some rx, pattern_desc) \<Rightarrow> Inr (finditer rx content, pattern_desc))"

definition custom_matches :: "runtime \<Rightarrow> ustr \<Rightarrow> ustr \<Rightarrow> py_error + (rmatch list \<times> ustr)" where
  "custom_matches rt custom_pattern content =
     (case rt_compile rt custom_pattern of
        Inl e \<Rightarrow> Inl (ValueError_invalid_pattern e)
      | Inr chapter_pattern \<Rightarrow>
          Inr (chapter_pattern content, [0x81EA, 0x5B9A, 0x4E49, 58, 32] @ custom_pattern))"

definition find_matches ::
  "runtime \<Rightarrow> ustr option \<Rightarrow> ustr \<Rightarrow> py_error + (rmatch list \<times> ustr)" where
  "find_matches rt custom_pattern content =
     (case custom_pattern of
        None \<Rightarrow> detected_matches content
      | Some p \<Rightarrow> if p \<noteq> [] then custom_matches rt p content else detected_matches content)"

text \<open>
  The whole run. The first component of the result lists the files written, in order,
  each with its content; the second is the error raised or the dictionary returned. The
  output directory only says where the files go and is left out, with the two entries of
  the dictionary that repeat the arguments; the argument \<open>use_chapter_title\<close> is never read.
\<close>

definition split_chapters ::
  "runtime \<Rightarrow> ustr option \<Rightarrow> string option \<Rightarrow> (ustr \<times> ustr) list \<times> (py_error + split_result)" where
  "split_chapters rt custom_pattern encoding =
     (if \<not> rt_exists rt then ([], Inl FileNotFoundError)
      else (let encoding' = (case encoding of
                               None \<Rightarrow> detect_encoding (rt_decodes rt) (rt_bytes rt)
                             | Some e \<Rightarrow> e);
                content = rt_decode rt encoding' (rt_bytes rt)
            in case find_matches rt custom_pattern content of
                 Inl e \<Rightarrow> ([], Inl e)
               | Inr (chapter_matches, pattern_desc) \<Rightarrow>
                   (case segment content chapter_matches of
                      Inl e \<Rightarrow> ([], Inl e)
                    | Inr chapters \<Rightarrow>
                        (map (chapter_file content) chapters,
                         Inr \<lparr>pattern_used = pattern_desc, encoding_used = encoding',
                              chapters_found = length chapters,
                              files_created = map ch_filename chapters\<rparr>))))"

section \<open>Notions used in the statements\<close>

text \<open>
  A match supplies a chapter number when the pattern has no group or its first group took
  part in the match.
\<close>

definition has_token :: "rmatch \<Rightarrow> bool" where
  "has_token m = (case m_groups m of [] \<Rightarrow> True | group1 # _ \<Rightarrow> group1 \<noteq> None)"

text \<open>\<open>chapter_matches[i + 1]\<close> when \<open>i + 1 < len(chapter_matches)\<close>.\<close>

definition next_match :: "rmatch list \<Rightarrow> nat \<Rightarrow> rmatch option" where
  "next_match ms i = (if Suc i < length ms then Some (ms ! Suc i) else None)"

text \<open>The number a string of ASCII digits denotes.\<close>

definition digits_val :: "ustr \<Rightarrow> nat" where
  "digits_val s = foldl (\<lambda>v c. 10 * v + (c - 48)) 0 s"

text \<open>The content a run reads: the bytes decoded under the given or the detected encoding.\<close>

definition content_read :: "runtime \<Rightarrow> string option \<Rightarrow> ustr" where
  "content_read rt encoding =
     rt_decode rt
       (case encoding of
          None \<Rightarrow> detect_encoding (rt_decodes rt) (rt_bytes rt)
        | Some e \<Rightarrow> e)
       (rt_bytes rt)"

section \<open>Properties of parse_chinese_number\<close>

lemma map_of_chinese_to_arabic:
  "map_of chinese_to_arabic c =
     (if c = 0x96F6 then Some 0 else if c = 0x4E00 then Some 1
      else if c = 0x4E8C then Some 2 else if c = 0x4E09 then Some 3
      else if c = 0x56DB then Some 4 else if c = 0x4E94 then Some 5
      else if c = 0x516D then Some 6 else if c = 0x4E03 then Some 7
      else if c = 0x516B then Some 8 else if c = 0x4E5D then Some 9
      else if c = 0x5341 then Some 10
      else if c = 0x767E then Some 100 else if c = 0x5343 then Some 1000
      else None)"
  by (simp add: chinese_to_arabic_def)

lemma pcn_step_spec: "pcn_step st c = spec_normalize_step st c"
  by (cases st) (simp add: map_of_chinese_to_arabic numeral_kind_of_def ch_wan_def ch_yi_def)

lemma pcn_loop_spec: "pcn_loop text = foldl spec_normalize_step (0, 0) text"
proof -
  have "pcn_step = spec_normalize_step"
    by (intro ext) (rule pcn_step_spec)
  then show ?thesis by (simp add: pcn_loop_def)
qed

lemma pcn_total_spec: "pcn_total text = spec_normalize_total text"
  by (simp add: pcn_total_def spec_normalize_total_def pcn_loop_spec)

lemma parse_chinese_number_total:
  "parse_chinese_number text =
     (if text = [] then None
      else if pcn_total text > 0 then Some (pcn_total text) else None)"
  by (simp add: parse_chinese_number_def pcn_total_def Let_def split: prod.splits)

lemmas pcn_eval =
  parse_chinese_number_def pcn_loop_def map_of_chinese_to_arabic ch_wan_def ch_yi_def

text \<open>
  Claim C2. The source's loop is the accumulation rule of the specification: a digit-value
  character is added to the accumulator, a hundred or thousand multiplier multiplies it, the
  ten multiplier turns a non-zero accumulator \<open>a\<close> into \<open>a * 10 + 10\<close> and a zero one into
  \<open>10\<close>, a group separator adds accumulator times group value to the result and resets the
  accumulator, and the accumulator is added after the scan. Shi-er (U+5341 U+4E8C) gives 12,
  and yi-bai-er-shi-san (U+4E00 U+767E U+4E8C U+5341 U+4E09) gives what the rule produces,
  1033, not 123.
\<close>

theorem parse_chinese_number_is_accumulation_rule:
  "pcn_loop text = foldl spec_normalize_step (0, 0) text
   \<and> parse_chinese_number text = spec_normalize text
   \<and> parse_chinese_number [0x5341, 0x4E8C] = Some 12
   \<and> parse_chinese_number [0x4E00, 0x767E, 0x4E8C, 0x5341, 0x4E09] = Some 1033"
proof (intro conjI)
  show "pcn_loop text = foldl spec_normalize_step (0, 0) text"
    by (rule pcn_loop_spec)
  show "parse_chinese_number text = spec_normalize text"
    by (simp add: parse_chinese_number_total spec_normalize_def pcn_total_spec)
  show "parse_chinese_number [0x5341, 0x4E8C] = Some 12"
    by (simp add: pcn_eval)
  show "parse_chinese_number [0x4E00, 0x767E, 0x4E8C, 0x5341, 0x4E09] = Some 1033"
    by (simp add: pcn_eval)
qed

text \<open>
  Claim C9. The routine is total: on every string it returns either nothing or a strictly
  positive integer, and it returns nothing exactly when the string is empty or the
  accumulated total is not positive (no conversion step can fail, so no third case
  arises). The empty string and the single character ling (U+96F6, value 0) give nothing.
\<close>

theorem parse_chinese_number_positive_or_none:
  "(parse_chinese_number text = None
      \<or> (\<exists>n. 0 < n \<and> n = pcn_total text \<and> parse_chinese_number text = Some n))
   \<and> (parse_chinese_number text = None) = (text = [] \<or> pcn_total text \<le> 0)
   \<and> parse_chinese_number [] = None
   \<and> parse_chinese_number [0x96F6] = None"
proof (intro conjI)
  show "parse_chinese_number text = None
      \<or> (\<exists>n. 0 < n \<and> n = pcn_total text \<and> parse_chinese_number text = Some n)"
    by (simp add: parse_chinese_number_total)
  show "(parse_chinese_number text = None) = (text = [] \<or> pcn_total text \<le> 0)"
    by (auto simp add: parse_chinese_number_total)
  show "parse_chinese_number [] = None"
    by (simp add: parse_chinese_number_def)
  show "parse_chinese_number [0x96F6] = None"
    by (simp add: pcn_eval)
qed

lemma pcn_step_unrecognized: "\<not> recognized c \<Longrightarrow> pcn_step st c = st"
  by (cases st) (simp add: recognized_def chinese_to_arabic_def)

lemma pcn_foldl_filter: "foldl pcn_step st (filter recognized text) = foldl pcn_step st text"
  by (induction "text" arbitrary: st) (simp_all add: pcn_step_unrecognized)

lemma pcn_loop_filter: "pcn_loop (filter recognized text) = pcn_loop text"
  by (simp add: pcn_loop_def pcn_foldl_filter)

lemma pcn_loop_all_unrecognized:
  "list_all (\<lambda>c. \<not> recognized c) text \<Longrightarrow> pcn_loop text = (0, 0)"
proof -
  assume "list_all (\<lambda>c. \<not> recognized c) text"
  then have "filter recognized text = []"
    by (simp add: list_all_iff filter_empty_conv)
  then have "pcn_loop text = pcn_loop []"
    using pcn_loop_filter [of "text"] by simp
  then show ?thesis by (simp add: pcn_loop_def)
qed

lemma parse_chinese_number_all_unrecognized:
  "list_all (\<lambda>c. \<not> recognized c) text \<Longrightarrow> parse_chinese_number text = None"
  by (simp add: parse_chinese_number_def pcn_loop_all_unrecognized)

lemma parse_chinese_number_filter:
  "parse_chinese_number (filter recognized text) = parse_chinese_number text"
proof (cases "filter recognized text = []")
  case True
  then have "list_all (\<lambda>c. \<not> recognized c) text"
    by (simp add: list_all_iff filter_empty_conv)
  then have "parse_chinese_number text = None"
    by (rule parse_chinese_number_all_unrecognized)
  with True show ?thesis by (simp add: parse_chinese_number_def)
next
  case False
  then have "text \<noteq> []" by auto
  with False show ?thesis
    by (simp add: parse_chinese_number_def pcn_loop_filter)
qed

text \<open>
  Claim C10. A character that is neither a key of the dictionary nor a group separator
  leaves the loop state as it is, so deleting such characters changes neither the loop
  state nor the result. A string of such characters only, like the Arabic digits
  \<open>12\<close> (code points 49, 50), gives nothing, and so does a lone bai (U+767E, hundred) or
  qian (U+5343, thousand), which multiplies the zero accumulator.
\<close>

theorem parse_chinese_number_skips_unrecognized:
  "(\<not> recognized c \<longrightarrow> pcn_step st c = st)
   \<and> pcn_loop (filter recognized text) = pcn_loop text
   \<and> parse_chinese_number (filter recognized text) = parse_chinese_number text
   \<and> (list_all (\<lambda>c. \<not> recognized c) text \<longrightarrow> parse_chinese_number text = None)
   \<and> parse_chinese_number [49, 50] = None
   \<and> parse_chinese_number [0x767E] = None
   \<and> parse_chinese_number [0x5343] = None"
proof (intro conjI)
  show "\<not> recognized c \<longrightarrow> pcn_step st c = st"
    by (simp add: pcn_step_unrecognized)
  show "pcn_loop (filter recognized text) = pcn_loop text"
    by (rule pcn_loop_filter)
  show "parse_chinese_number (filter recognized text) = parse_chinese_number text"
    by (rule parse_chinese_number_filter)
  show "list_all (\<lambda>c. \<not> recognized c) text \<longrightarrow> parse_chinese_number text = None"
    by (simp add: parse_chinese_number_all_unrecognized)
  show "parse_chinese_number [49, 50] = None"
    by (simp add: pcn_eval)
  show "parse_chinese_number [0x767E] = None"
    by (simp add: pcn_eval)
  show "parse_chinese_number [0x5343] = None"
    by (simp add: pcn_eval)
qed

theorem parse_chinese_number_skips_unrecognized_witness:
  "\<not> recognized 49
   \<and> pcn_step (3, 4) 49 = (3, 4)
   \<and> list_all (\<lambda>c. \<not> recognized c) [49, 50]
   \<and> parse_chinese_number [49, 50] = None"
proof -
  have r: "\<not> recognized 49" "\<not> recognized 50"
    by (simp_all add: recognized_def chinese_to_arabic_def ch_wan_def ch_yi_def)
  then have l: "list_all (\<lambda>c. \<not> recognized c) [49, 50]"
    by simp
  show ?thesis
    using r l parse_chinese_number_skips_unrecognized [of 49 "(3, 4)" "[49, 50]"]
    by blast
qed

section \<open>Properties of detect_encoding\<close>

lemma try_encodings_find:
  "try_encodings decodes bs es = find (\<lambda>e. decodes e bs) es"
  by (induction es) simp_all

lemma detect_encoding_index:
  assumes "i < length encodings" and "decodes (encodings ! i) bs"
    and "\<forall>j<i. \<not> decodes (encodings ! j) bs"
  shows "detect_encoding decodes bs = encodings ! i"
proof -
  have "find (\<lambda>e. decodes e bs) encodings = Some (encodings ! i)"
    unfolding find_Some_iff using assms by blast
  then show ?thesis
    by (simp add: detect_encoding_def try_encodings_find)
qed

lemma detect_encoding_fallback:
  assumes "\<forall>e \<in> set encodings. \<not> decodes e bs"
  shows "detect_encoding decodes bs = ''utf-8''"
proof -
  have "find (\<lambda>e. decodes e bs) encodings = None"
    unfolding find_None_iff using assms by blast
  then show ?thesis
    by (simp add: detect_encoding_def try_encodings_find)
qed

lemma detect_encoding_only:
  assumes "e \<in> set encodings" and "decodes e bs"
    and "\<forall>e' \<in> set encodings. e' \<noteq> e \<longrightarrow> \<not> decodes e' bs"
  shows "detect_encoding decodes bs = e"
proof -
  from assms(1) obtain i where i: "i < length encodings" "encodings ! i = e"
    by (auto simp: in_set_conv_nth)
  have "distinct encodings"
    by (simp add: encodings_def)
  then have "\<forall>j<i. encodings ! j \<noteq> e"
    using i by (auto simp: nth_eq_iff_index_eq)
  then have "\<forall>j<i. \<not> decodes (encodings ! j) bs"
    using assms(3) i(1) by (metis nth_mem order_less_trans)
  with i assms(2) show ?thesis
    using detect_encoding_index [of i decodes bs] by simp
qed

lemma detect_encoding_cong:
  assumes "\<forall>e \<in> set encodings. decodes e bs = decodes' e bs'"
  shows "detect_encoding decodes bs = detect_encoding decodes' bs'"
proof -
  have "find (\<lambda>e. decodes e bs) es = find (\<lambda>e. decodes' e bs') es"
    if "\<forall>e \<in> set es. decodes e bs = decodes' e bs'" for es
    using that by (induction es) simp_all
  with assms show ?thesis
    by (simp add: detect_encoding_def try_encodings_find)
qed

text \<open>
  Claim C6. The candidates are tried in the fixed order utf-8, utf-8-sig, gbk, gb2312,
  gb18030, big5, shift_jis, and the first one under which the bytes decode is returned;
  when none decodes, utf-8 is returned. The result depends on nothing but which of the
  seven candidates decode the bytes, so equal bytes give equal results. When the bytes
  decode under one of the five East-Asian candidates and under no other candidate, that
  candidate is returned.
\<close>

theorem detect_encoding_first_success:
  "encodings = [''utf-8'', ''utf-8-sig'', ''gbk'', ''gb2312'', ''gb18030'', ''big5'', ''shift_jis'']
   \<and> (i < length encodings \<and> decodes (encodings ! i) bs
        \<and> (\<forall>j<i. \<not> decodes (encodings ! j) bs)
      \<longrightarrow> detect_encoding decodes bs = encodings ! i)
   \<and> ((\<forall>e \<in> set encodings. \<not> decodes e bs) \<longrightarrow> detect_encoding decodes bs = ''utf-8'')
   \<and> ((\<forall>e \<in> set encodings. decodes e bs = decodes' e bs')
      \<longrightarrow> detect_encoding decodes bs = detect_encoding decodes' bs')
   \<and> (e \<in> set [''gbk'', ''gb2312'', ''gb18030'', ''big5'', ''shift_jis''] \<and> decodes e bs
        \<and> (\<forall>e' \<in> set encodings. e' \<noteq> e \<longrightarrow> \<not> decodes e' bs)
      \<longrightarrow> detect_encoding decodes bs = e)"
proof (intro conjI impI)
  show "encodings = [''utf-8'', ''utf-8-sig'', ''gbk'', ''gb2312'', ''gb18030'', ''big5'', ''shift_jis'']"
    by (simp add: encodings_def)
next
  assume "i < length encodings \<and> decodes (encodings ! i) bs
    \<and> (\<forall>j<i. \<not> decodes (encodings ! j) bs)"
  then show "detect_encoding decodes bs = encodings ! i"
    using detect_encoding_index by blast
next
  assume "\<forall>e \<in> set encodings. \<not> decodes e bs"
  then show "detect_encoding decodes bs = ''utf-8''"
    by (rule detect_encoding_fallback)
next
  assume "\<forall>e \<in> set encodings. decodes e bs = decodes' e bs'"
  then show "detect_encoding decodes bs = detect_encoding decodes' bs'"
    by (rule detect_encoding_cong)
next
  assume a: "e \<in> set [''gbk'', ''gb2312'', ''gb18030'', ''big5'', ''shift_jis''] \<and> decodes e bs
    \<and> (\<forall>e' \<in> set encodings. e' \<noteq> e \<longrightarrow> \<not> decodes e' bs)"
  then have "e \<in> set encodings"
    by (auto simp: encodings_def)
  with a show "detect_encoding decodes bs = e"
    using detect_encoding_only by blast
qed

text \<open>
  The bytes C4 E3 decode under gbk and, for this witness, under no other candidate: gbk, the
  third candidate, is returned. Bytes that decode under no candidate give utf-8.
\<close>

theorem detect_encoding_first_success_witness:
  "(2::nat) < length encodings
   \<and> encodings ! 2 = ''gbk''
   \<and> encodings ! 0 \<noteq> ''gbk'' \<and> encodings ! 1 \<noteq> ''gbk''
   \<and> ''gbk'' \<in> set [''gbk'', ''gb2312'', ''gb18030'', ''big5'', ''shift_jis'']
   \<and> detect_encoding (\<lambda>e bs. e = ''gbk'') [0xC4, 0xE3] = ''gbk''
   \<and> detect_encoding (\<lambda>e bs. False) [0xFF] = ''utf-8''"
proof -
  have l: "(2::nat) < length encodings" and n: "encodings ! 2 = ''gbk''"
    by (simp_all add: encodings_def)
  have b: "\<forall>j<2. encodings ! j \<noteq> ''gbk''"
    by (auto simp add: encodings_def less_2_cases_iff)
  have "detect_encoding (\<lambda>e bs. e = ''gbk'') [0xC4, 0xE3] = encodings ! 2"
    using detect_encoding_first_success
      [of 2 "\<lambda>e bs. e = ''gbk''" "[0xC4, 0xE3]" "\<lambda>e bs. e = ''gbk''" "[0xC4, 0xE3]" "''gbk''"]
      l n b by simp
  moreover have "detect_encoding (\<lambda>e bs. False) [0xFF] = ''utf-8''"
    using detect_encoding_first_success
      [of 0 "\<lambda>e bs. False" "[0xFF]" "\<lambda>e bs. False" "[0xFF]" "''gbk''"]
    by simp
  ultimately show ?thesis
    using l n b by simp
qed

section \<open>Properties of the loop over the matches\<close>

lemma make_chapter_Inr:
  assumes "make_chapter content m nxt n = Inr c"
  shows "ch_start c = m_start m"
    and "ch_end c = (case nxt of Some m' \<Rightarrow> m_start m' | None \<Rightarrow> length content)"
    and "ch_title c = full_title_line_of content m"
    and "chapter_num_of m n = Some (ch_num c)"
    and "ch_filename c = filename_of (ch_num c)"
  using assms by (auto simp: make_chapter_def Let_def split: option.splits)

lemma make_chapter_Inl:
  assumes "make_chapter content m nxt n = Inl e"
  shows "e = AttributeError" and "\<not> has_token m"
  using assms
  by (auto simp: make_chapter_def Let_def chapter_num_of_def has_token_def
      split: option.splits list.splits)

lemma make_chapter_has_token:
  assumes "has_token m"
  shows "\<exists>c. make_chapter content m nxt n = Inr c"
  using assms make_chapter_Inl(2) [of content m nxt n]
  by (cases "make_chapter content m nxt n") auto

lemma next_match_Cons_0:
  "next_match (m # ms) 0 = (case ms of [] \<Rightarrow> None | m' # _ \<Rightarrow> Some m')"
  by (simp add: next_match_def split: list.splits)

lemma next_match_Cons_Suc: "next_match (m # ms) (Suc i) = next_match ms i"
  by (simp add: next_match_def)

lemma build_chapters_Inr:
  assumes "build_chapters content ms acc = Inr chs"
  shows "length chs = length acc + length ms \<and> take (length acc) chs = acc
    \<and> (\<forall>i<length ms.
          make_chapter content (ms ! i) (next_match ms i) (length acc + i)
            = Inr (chs ! (length acc + i)))"
  using assms
proof (induction ms arbitrary: acc)
  case Nil
  then show ?case by simp
next
  case (Cons m ms)
  from Cons.prems obtain c where
    c: "make_chapter content m (next_match (m # ms) 0) (length acc) = Inr c"
    and rest: "build_chapters content ms (acc @ [c]) = Inr chs"
    by (auto simp: next_match_Cons_0 split: sum.splits)
  from Cons.IH [OF rest] have
    len: "length chs = length (acc @ [c]) + length ms"
    and pre: "take (length (acc @ [c])) chs = acc @ [c]"
    and ih: "\<forall>i<length ms.
          make_chapter content (ms ! i) (next_match ms i) (length (acc @ [c]) + i)
            = Inr (chs ! (length (acc @ [c]) + i))"
    by blast+
  have pre': "take (length acc) chs = acc"
  proof -
    have "take (length acc) (take (length (acc @ [c])) chs) = take (length acc) (acc @ [c])"
      by (simp only: pre)
    then show ?thesis by (simp add: min_def)
  qed
  have at: "chs ! length acc = c"
  proof -
    have "chs ! length acc = take (length (acc @ [c])) chs ! length acc"
      by simp
    also have "\<dots> = (acc @ [c]) ! length acc"
      by (simp only: pre)
    also have "\<dots> = c"
      by simp
    finally show ?thesis .
  qed
  have "make_chapter content ((m # ms) ! i) (next_match (m # ms) i) (length acc + i)
      = Inr (chs ! (length acc + i))" if "i < length (m # ms)" for i
  proof (cases i)
    case 0
    then show ?thesis using c at by simp
  next
    case (Suc k)
    with that have "k < length ms" by simp
    with ih have "make_chapter content (ms ! k) (next_match ms k) (length (acc @ [c]) + k)
        = Inr (chs ! (length (acc @ [c]) + k))"
      by blast
    with Suc show ?thesis by (simp add: next_match_Cons_Suc)
  qed
  with len pre' show ?case by simp
qed

lemma build_chapters_Inl:
  assumes "build_chapters content ms acc = Inl e"
  shows "e = AttributeError \<and> \<not> list_all has_token ms"
  using assms
proof (induction ms arbitrary: acc)
  case Nil
  then show ?case by simp
next
  case (Cons m ms)
  show ?case
  proof (cases "make_chapter content m (case ms of [] \<Rightarrow> None | m' # _ \<Rightarrow> Some m') (length acc)")
    case (Inl e')
    with Cons.prems have "e' = e" by simp
    with Inl make_chapter_Inl show ?thesis by fastforce
  next
    case (Inr c)
    with Cons.prems have "build_chapters content ms (acc @ [c]) = Inl e" by simp
    from Cons.IH [OF this] show ?thesis by simp
  qed
qed

lemma build_chapters_has_token:
  assumes "list_all has_token ms"
  shows "\<exists>chs. build_chapters content ms acc = Inr chs"
  using assms build_chapters_Inl [of content ms acc]
  by (cases "build_chapters content ms acc") auto

lemma add_epilogue_id: "add_epilogue content chapters = chapters"
  by (simp add: add_epilogue_def)

lemma segment_build: "segment content ms = build_chapters content ms []"
  by (simp add: segment_def add_epilogue_id split: sum.splits)

lemma segment_Inr:
  assumes "segment content ms = Inr chs"
  shows "length chs = length ms"
    and "\<And>i. i < length ms \<Longrightarrow>
           make_chapter content (ms ! i) (next_match ms i) i = Inr (chs ! i)"
  using build_chapters_Inr [of content ms "[]" chs] assms
  by (simp_all add: segment_build)

lemma segment_has_token:
  assumes "list_all has_token ms"
  shows "\<exists>chs. segment content ms = Inr chs"
  using build_chapters_has_token [OF assms] by (simp add: segment_build)

text \<open>
  The boundaries of the chapters, for matches that all supply a chapter number: one
  chapter for each match, in order, from the start of its match to the start of the next
  match (to the end of the content for the last match), and nothing after them.
\<close>

lemma segment_boundaries:
  assumes "list_all has_token ms"
  shows "\<exists>chs. segment content ms = Inr chs \<and> length chs = length ms
    \<and> (\<forall>i<length ms. ch_start (chs ! i) = m_start (ms ! i)
          \<and> ch_end (chs ! i)
              = (if Suc i < length ms then m_start (ms ! Suc i) else length content))"
proof -
  from segment_has_token [OF assms] obtain chs where chs: "segment content ms = Inr chs"
    by blast
  have "ch_start (chs ! i) = m_start (ms ! i)
      \<and> ch_end (chs ! i) = (if Suc i < length ms then m_start (ms ! Suc i) else length content)"
    if "i < length ms" for i
    using make_chapter_Inr(1,2) [OF segment_Inr(2) [OF chs that]]
    by (simp add: next_match_def)
  with chs segment_Inr(1) [OF chs] show ?thesis by blast
qed

lemma segment_contiguous:
  assumes "list_all has_token ms" and "segment content ms = Inr chs"
    and "Suc i < length chs"
  shows "ch_end (chs ! i) = ch_start (chs ! Suc i)"
  using segment_boundaries [OF assms(1), of content] assms(2,3) by auto

text \<open>
  When the matches come in the order of their offsets and none starts beyond the content,
  as \<open>finditer\<close> gives them, no chapter ends before it starts: with the lemma before,
  the chapters follow one another without gap or overlap.
\<close>

lemma segment_start_le_end:
  assumes "list_all has_token ms" and "segment content ms = Inr chs"
    and "sorted (map m_start ms)" and "\<forall>m \<in> set ms. m_start m \<le> length content"
    and "i < length chs"
  shows "ch_start (chs ! i) \<le> ch_end (chs ! i)"
proof -
  from segment_boundaries [OF assms(1), of content] assms(2)
  have len: "length chs = length ms"
    and b: "\<forall>i<length ms. ch_start (chs ! i) = m_start (ms ! i)
          \<and> ch_end (chs ! i)
              = (if Suc i < length ms then m_start (ms ! Suc i) else length content)"
    by auto
  show ?thesis
  proof (cases "Suc i < length ms")
    case True
    then have "map m_start ms ! i \<le> map m_start ms ! Suc i"
      using assms(3) by (simp add: sorted_iff_nth_Suc)
    with True b show ?thesis by simp
  next
    case False
    from assms(5) len have "ms ! i \<in> set ms" by simp
    with assms(4) have "m_start (ms ! i) \<le> length content" by blast
    with False b assms(5) len show ?thesis by simp
  qed
qed

section \<open>Chapter numbers and file names\<close>

lemma str_nat_digits: "c \<in> set (str_nat n) \<Longrightarrow> 48 \<le> c \<and> c \<le> 57"
proof (induction n arbitrary: c rule: str_nat.induct)
  case (1 n)
  show ?case
  proof (cases "n < 10")
    case True
    with "1.prems" show ?thesis by (simp add: str_nat.simps [of n])
  next
    case False
    with "1.prems" have "c \<in> set (str_nat (n div 10)) \<or> c = 48 + n mod 10"
      by (auto simp add: str_nat.simps [of n])
    then show ?thesis
    proof
      assume "c \<in> set (str_nat (n div 10))"
      with "1.IH" False show ?thesis by blast
    next
      assume "c = 48 + n mod 10"
      moreover have "n mod 10 < 10" by simp
      ultimately show ?thesis by linarith
    qed
  qed
qed

lemma str_nat_nonempty: "str_nat n \<noteq> []"
  by (simp add: str_nat.simps [of n])

lemma digits_val_snoc: "digits_val (s @ [c]) = 10 * digits_val s + (c - 48)"
  by (simp add: digits_val_def)

lemma digits_val_str_nat: "digits_val (str_nat n) = n"
proof (induction n rule: str_nat.induct)
  case (1 n)
  show ?case
  proof (cases "n < 10")
    case True
    then show ?thesis by (simp add: str_nat.simps [of n] digits_val_def)
  next
    case False
    with "1.IH" have "digits_val (str_nat (n div 10)) = n div 10" by simp
    with False show ?thesis
      by (simp add: str_nat.simps [of n] digits_val_snoc)
  qed
qed

lemma digits_val_zeros: "digits_val (replicate k 48 @ s) = digits_val s"
  by (induction k) (simp_all add: digits_val_def)

lemma zfill_str_nat: "zfill w (str_nat n) = replicate (w - length (str_nat n)) 48 @ str_nat n"
proof (cases "str_nat n")
  case Nil
  with str_nat_nonempty show ?thesis by blast
next
  case (Cons c cs)
  then have "c \<in> set (str_nat n)" by simp
  then have "48 \<le> c" by (simp add: str_nat_digits)
  then have "c \<noteq> 43" "c \<noteq> 45" by simp_all
  with Cons show ?thesis by (simp add: zfill_def Let_def)
qed

lemma zfill_str_nat_inj:
  assumes "zfill w (str_nat a) = zfill w (str_nat b)"
  shows "a = b"
proof -
  have "digits_val (zfill w (str_nat n)) = n" for n
    by (simp add: zfill_str_nat digits_val_zeros digits_val_str_nat)
  with assms show ?thesis by metis
qed

lemma filename_of_eq: "(filename_of s = filename_of t) = (zfill 4 s = zfill 4 t)"
  by (simp add: filename_of_def)

lemma segment_chapter:
  assumes "segment content ms = Inr chs" and "i < length chs"
  shows "ch_filename (chs ! i) = filename_of (ch_num (chs ! i))"
    and "chapter_num_of (ms ! i) i = Some (ch_num (chs ! i))"
    and "ch_title (chs ! i) = full_title_line_of content (ms ! i)"
proof -
  from assms have "make_chapter content (ms ! i) (next_match ms i) i = Inr (chs ! i)"
    using segment_Inr [OF assms(1)] by simp
  then show "ch_filename (chs ! i) = filename_of (ch_num (chs ! i))"
    and "chapter_num_of (ms ! i) i = Some (ch_num (chs ! i))"
    and "ch_title (chs ! i) = full_title_line_of content (ms ! i)"
    by (simp_all add: make_chapter_Inr)
qed

lemma no_group_has_token: "list_all (\<lambda>m. m_groups m = []) ms \<Longrightarrow> list_all has_token ms"
  by (induction ms) (simp_all add: has_token_def)

lemma segment_no_group:
  assumes "list_all (\<lambda>m. m_groups m = []) ms"
  shows "\<exists>chs. segment content ms = Inr chs \<and> length chs = length ms
    \<and> map ch_num chs = map (\<lambda>i. str_nat (i + 1)) [0..<length ms]
    \<and> map ch_filename chs = map (\<lambda>i. filename_of (str_nat (i + 1))) [0..<length ms]"
proof -
  from segment_has_token [OF no_group_has_token [OF assms]]
  obtain chs where chs: "segment content ms = Inr chs" by blast
  have len: "length chs = length ms"
    by (rule segment_Inr(1) [OF chs])
  have num: "ch_num (chs ! i) = str_nat (i + 1)" if "i < length ms" for i
  proof -
    from assms that have "m_groups (ms ! i) = []"
      by (simp add: list_all_length)
    then have "chapter_num_of (ms ! i) i = Some (str_nat (i + 1))"
      by (simp add: chapter_num_of_def)
    with segment_chapter(2) [OF chs, of i] that len show ?thesis by simp
  qed
  have "map ch_num chs = map (\<lambda>i. str_nat (i + 1)) [0..<length ms]"
    by (rule nth_equalityI) (simp_all add: len num)
  moreover have "map ch_filename chs = map (\<lambda>i. filename_of (str_nat (i + 1))) [0..<length ms]"
    by (rule nth_equalityI) (simp_all add: len num segment_chapter(1) [OF chs])
  ultimately show ?thesis using chs len by blast
qed

lemma segment_no_group_distinct:
  assumes "list_all (\<lambda>m. m_groups m = []) ms" and "segment content ms = Inr chs"
  shows "distinct (map ch_filename chs)"
proof -
  from segment_no_group [OF assms(1), of content] assms(2)
  have eq: "map ch_filename chs = map (\<lambda>i. filename_of (str_nat (i + 1))) [0..<length ms]"
    by simp
  have "inj_on (\<lambda>i. filename_of (str_nat (i + 1))) (set [0..<length ms])"
  proof (rule inj_onI)
    fix a b
    assume "filename_of (str_nat (a + 1)) = filename_of (str_nat (b + 1))"
    then have "zfill 4 (str_nat (a + 1)) = zfill 4 (str_nat (b + 1))"
      by (simp add: filename_of_eq)
    then have "a + 1 = b + 1" by (rule zfill_str_nat_inj)
    then show "a = b" by simp
  qed
  then show ?thesis
    by (simp add: eq distinct_map)
qed

section \<open>The claims about segmentation\<close>

text \<open>
  Claim C1. Segmentation is to return one chapter for each match, whatever the pattern. It
  does not for a pattern whose first group can stay out of a match, such as \<open>(x)?y\<close>: on
  the content \<open>y\<close> (code point 121) that pattern has one match, at offset 0, whose first
  group is \<open>None\<close>; the chapter number is then \<open>None\<close>, and building the file name raises
  \<open>AttributeError\<close> in place of returning the one chapter. (For matches that all supply a
  chapter number the boundaries are as claimed: lemmas \<open>segment_boundaries\<close>,
  \<open>segment_contiguous\<close> and \<open>segment_start_le_end\<close>; nothing is appended after the loop:
  lemma \<open>add_epilogue_id\<close>.)
\<close>

theorem segment_raises_without_chapter_number:
  "segment [121] [\<lparr>m_start = 0, m_group0 = [121], m_groups = [None]\<rparr>] = Inl AttributeError"
  by code_simp

text \<open>
  Claim C3, as stated: the file name would end with the filled chapter number followed by
  \<open>.md\<close>. For the content \<open>Chapter 1\<close>, \<open>AAA\<close>, \<open>Chapter 2\<close>, \<open>BBB\<close> (four lines) and the
  pattern \<open>^Chapter\s+(\d+)\<close> the first file name is di, \<open>0001\<close>, zhang, \<open>.md\<close>: the
  character zhang stands between the number and \<open>.md\<close>. And a captured number with a
  sign is not filled on the left: for the match \<open>-5\<close> of a pattern such as \<open>(-?\d+)\<close> the
  file name holds \<open>-005\<close>, not \<open>00-5\<close>.
\<close>

theorem filename_has_zhang_before_md:
  "segment
     [67, 104, 97, 112, 116, 101, 114, 32, 49, 10, 65, 65, 65, 10,
      67, 104, 97, 112, 116, 101, 114, 32, 50, 10, 66, 66, 66]
     (finditer pat_Chapter
        [67, 104, 97, 112, 116, 101, 114, 32, 49, 10, 65, 65, 65, 10,
         67, 104, 97, 112, 116, 101, 114, 32, 50, 10, 66, 66, 66])
   = Inr [\<lparr>ch_start = 0, ch_end = 14, ch_title = [67, 104, 97, 112, 116, 101, 114, 32, 49],
            ch_filename = [0x7B2C, 48, 48, 48, 49, 0x7AE0, 46, 109, 100], ch_num = [49]\<rparr>,
          \<lparr>ch_start = 14, ch_end = 27, ch_title = [67, 104, 97, 112, 116, 101, 114, 32, 50],
            ch_filename = [0x7B2C, 48, 48, 48, 50, 0x7AE0, 46, 109, 100], ch_num = [50]\<rparr>]
   \<and> \<not> suffix (zfill 4 [49] @ [46, 109, 100]) [0x7B2C, 48, 48, 48, 49, 0x7AE0, 46, 109, 100]
   \<and> segment [45, 53] [\<lparr>m_start = 0, m_group0 = [45, 53], m_groups = [Some [45, 53]]\<rparr>]
     = Inr [\<lparr>ch_start = 0, ch_end = 2, ch_title = [45, 53],
              ch_filename = [0x7B2C, 45, 48, 48, 53, 0x7AE0, 46, 109, 100], ch_num = [45, 53]\<rparr>]
   \<and> [45, 48, 48, 53] \<noteq> replicate 2 48 @ [45, 53 :: nat]"
  by code_simp

text \<open>
  Claim C3, amended. In every segmentation that returns, the file name of each chapter is
  di, the chapter number filled to width four, zhang and \<open>.md\<close>. The chapter number is the
  first group as it was captured when the pattern has groups, and the count of chapters so
  far plus one, in decimal, when it has none. The file name depends on the groups of the
  match and on that count only, not on the title or the content. For a pattern without
  groups segmentation returns, and the numbers are \<open>0001\<close>, \<open>0002\<close> and so on in order.
  Filling puts the zeros after a leading sign: \<open>-5\<close> becomes \<open>-005\<close>.
\<close>

theorem segment_filename_scheme:
  "(segment content ms = Inr chs \<and> i < length chs \<longrightarrow>
      ch_filename (chs ! i) = [ch_di] @ zfill 4 (ch_num (chs ! i)) @ [ch_zhang, 46, 109, 100]
      \<and> (case m_groups (ms ! i) of
            [] \<Rightarrow> ch_num (chs ! i) = str_nat (i + 1)
          | group1 # _ \<Rightarrow> group1 = Some (ch_num (chs ! i))))
   \<and> (m_groups m = m_groups m' \<longrightarrow>
        map_sum id ch_filename (make_chapter content m nxt n)
          = map_sum id ch_filename (make_chapter content' m' nxt' n))
   \<and> (list_all (\<lambda>m. m_groups m = []) ms \<longrightarrow>
        (\<exists>chs. segment content ms = Inr chs \<and> length chs = length ms
           \<and> map ch_filename chs
               = map (\<lambda>i. [ch_di] @ zfill 4 (str_nat (i + 1)) @ [ch_zhang, 46, 109, 100])
                   [0..<length ms]))
   \<and> zfill 4 (str_nat 1) = [48, 48, 48, 49]
   \<and> zfill 4 (str_nat 2) = [48, 48, 48, 50]
   \<and> zfill 4 [45, 53] = [45, 48, 48, 53]"
proof (intro conjI impI)
  assume a: "segment content ms = Inr chs \<and> i < length chs"
  then have "chapter_num_of (ms ! i) i = Some (ch_num (chs ! i))"
    using segment_chapter(2) by blast
  then show "case m_groups (ms ! i) of
      [] \<Rightarrow> ch_num (chs ! i) = str_nat (i + 1)
    | group1 # _ \<Rightarrow> group1 = Some (ch_num (chs ! i))"
    by (auto simp: chapter_num_of_def split: list.splits)
  from a show "ch_filename (chs ! i)
      = [ch_di] @ zfill 4 (ch_num (chs ! i)) @ [ch_zhang, 46, 109, 100]"
    using segment_chapter(1) [of content ms chs i] by (simp add: filename_of_def)
next
  assume "m_groups m = m_groups m'"
  then have "chapter_num_of m n = chapter_num_of m' n"
    by (simp add: chapter_num_of_def)
  then show "map_sum id ch_filename (make_chapter content m nxt n)
      = map_sum id ch_filename (make_chapter content' m' nxt' n)"
    by (simp add: make_chapter_def Let_def split: option.splits)
next
  assume "list_all (\<lambda>m. m_groups m = []) ms"
  from segment_no_group [OF this, of content]
  show "\<exists>chs. segment content ms = Inr chs \<and> length chs = length ms
      \<and> map ch_filename chs
          = map (\<lambda>i. [ch_di] @ zfill 4 (str_nat (i + 1)) @ [ch_zhang, 46, 109, 100])
              [0..<length ms]"
    by (auto simp: filename_of_def)
next
  show "zfill 4 (str_nat 1) = [48, 48, 48, 49]" by code_simp
  show "zfill 4 (str_nat 2) = [48, 48, 48, 50]" by code_simp
  show "zfill 4 [45, 53] = [45, 48, 48, 53]" by code_simp
qed

text \<open>
  The content of the counterexample with its pattern, which has a group, and the content
  \<open>1 a\<close>, \<open>2 b\<close> (two lines) with the pattern \<open>^\s*\d+\s+\<close>, which has none.
\<close>

theorem segment_filename_scheme_witness:
  "segment
     [67, 104, 97, 112, 116, 101, 114, 32, 49, 10, 65, 65, 65, 10,
      67, 104, 97, 112, 116, 101, 114, 32, 50, 10, 66, 66, 66]
     (finditer pat_Chapter
        [67, 104, 97, 112, 116, 101, 114, 32, 49, 10, 65, 65, 65, 10,
         67, 104, 97, 112, 116, 101, 114, 32, 50, 10, 66, 66, 66])
   = Inr [\<lparr>ch_start = 0, ch_end = 14, ch_title = [67, 104, 97, 112, 116, 101, 114, 32, 49],
            ch_filename = [0x7B2C, 48, 48, 48, 49, 0x7AE0, 46, 109, 100], ch_num = [49]\<rparr>,
          \<lparr>ch_start = 14, ch_end = 27, ch_title = [67, 104, 97, 112, 116, 101, 114, 32, 50],
            ch_filename = [0x7B2C, 48, 48, 48, 50, 0x7AE0, 46, 109, 100], ch_num = [50]\<rparr>]
   \<and> [0x7B2C, 48, 48, 48, 50, 0x7AE0, 46, 109, 100]
       = [ch_di] @ zfill 4 [50] @ [ch_zhang, 46, 109, 100]
   \<and> list_all (\<lambda>m. m_groups m = []) (finditer pat_number [49, 32, 97, 10, 50, 32, 98])
   \<and> length (finditer pat_number [49, 32, 97, 10, 50, 32, 98]) = 2
   \<and> (\<exists>chs. segment [49, 32, 97, 10, 50, 32, 98] (finditer pat_number [49, 32, 97, 10, 50, 32, 98])
              = Inr chs
         \<and> map ch_filename chs
             = [[ch_di] @ zfill 4 (str_nat 1) @ [ch_zhang, 46, 109, 100],
                [ch_di] @ zfill 4 (str_nat 2) @ [ch_zhang, 46, 109, 100]])"
proof -
  let ?A = "[67, 104, 97, 112, 116, 101, 114, 32, 49, 10, 65, 65, 65, 10,
      67, 104, 97, 112, 116, 101, 114, 32, 50, 10, 66, 66, 66] :: ustr"
  let ?B = "[49, 32, 97, 10, 50, 32, 98] :: ustr"
  let ?cs = "[\<lparr>ch_start = 0, ch_end = 14, ch_title = [67, 104, 97, 112, 116, 101, 114, 32, 49],
            ch_filename = [0x7B2C, 48, 48, 48, 49, 0x7AE0, 46, 109, 100], ch_num = [49]\<rparr>,
          \<lparr>ch_start = 14, ch_end = 27, ch_title = [67, 104, 97, 112, 116, 101, 114, 32, 50],
            ch_filename = [0x7B2C, 48, 48, 48, 50, 0x7AE0, 46, 109, 100], ch_num = [50]\<rparr>]"
  have a: "segment ?A (finditer pat_Chapter ?A) = Inr ?cs"
    by code_simp
  have b: "list_all (\<lambda>m. m_groups m = []) (finditer pat_number ?B)"
    by code_simp
  have l: "length (finditer pat_number ?B) = 2"
    by code_simp
  have upt_two: "[0..<2] = [0, 1 :: nat]"
    by (simp add: upt_rec [of 0 2] upt_rec [of "Suc 0" 2])
  have "ch_filename (?cs ! 1) = [ch_di] @ zfill 4 (ch_num (?cs ! 1)) @ [ch_zhang, 46, 109, 100]"
    using segment_filename_scheme
      [where content = ?A and ms = "finditer pat_Chapter ?A" and chs = ?cs and i = 1] a
    by simp
  then have c: "[0x7B2C, 48, 48, 48, 50, 0x7AE0, 46, 109, 100]
      = [ch_di] @ zfill 4 [50] @ [ch_zhang, 46, 109, 100]"
    by simp
  have "\<exists>chs. segment ?B (finditer pat_number ?B) = Inr chs
      \<and> length chs = length (finditer pat_number ?B)
      \<and> map ch_filename chs
          = map (\<lambda>i. [ch_di] @ zfill 4 (str_nat (i + 1)) @ [ch_zhang, 46, 109, 100])
              [0..<length (finditer pat_number ?B)]"
    using segment_filename_scheme [where content = ?B and ms = "finditer pat_number ?B"] b
    by blast
  then obtain chs where chs: "segment ?B (finditer pat_number ?B) = Inr chs"
    and names: "map ch_filename chs
      = map (\<lambda>i. [ch_di] @ zfill 4 (str_nat (i + 1)) @ [ch_zhang, 46, 109, 100]) [0..<2]"
    unfolding l by blast
  have "map (\<lambda>i. [ch_di] @ zfill 4 (str_nat (i + 1)) @ [ch_zhang, 46, 109, 100]) [0, 1 :: nat]
      = [[ch_di] @ zfill 4 (str_nat 1) @ [ch_zhang, 46, 109, 100],
         [ch_di] @ zfill 4 (str_nat 2) @ [ch_zhang, 46, 109, 100]]"
    by (simp add: numeral_2_eq_2)
  with names have fn: "map ch_filename chs
      = [[ch_di] @ zfill 4 (str_nat 1) @ [ch_zhang, 46, 109, 100],
         [ch_di] @ zfill 4 (str_nat 2) @ [ch_zhang, 46, 109, 100]]"
    by (simp only: upt_two)
  have d: "\<exists>chs. segment ?B (finditer pat_number ?B) = Inr chs
      \<and> map ch_filename chs
          = [[ch_di] @ zfill 4 (str_nat 1) @ [ch_zhang, 46, 109, 100],
             [ch_di] @ zfill 4 (str_nat 2) @ [ch_zhang, 46, 109, 100]]"
    by (intro exI [of _ chs] conjI chs fn)
  show ?thesis
    by (intro conjI a b c d l)
qed

text \<open>
  Claim C7. The title is to be the whole line that holds the match, as the comment above
  the computation in the source says. The code takes the text from the start of that line
  up to the start of the match, and the stripped match itself when that text is blank. For
  the content \<open>Chapter 1 Dawn\<close>, \<open>AAA\<close> (two lines) and the pattern \<open>^Chapter\s+(\d+)\<close>
  the match is \<open>Chapter 1\<close> at offset 0 and the title is \<open>Chapter 1\<close>, while the line is
  \<open>Chapter 1 Dawn\<close>.
\<close>

theorem title_is_not_whole_line:
  "segment
     [67, 104, 97, 112, 116, 101, 114, 32, 49, 32, 68, 97, 119, 110, 10, 65, 65, 65]
     (finditer pat_Chapter
        [67, 104, 97, 112, 116, 101, 114, 32, 49, 32, 68, 97, 119, 110, 10, 65, 65, 65])
   = Inr [\<lparr>ch_start = 0, ch_end = 18, ch_title = [67, 104, 97, 112, 116, 101, 114, 32, 49],
            ch_filename = [0x7B2C, 48, 48, 48, 49, 0x7AE0, 46, 109, 100], ch_num = [49]\<rparr>]
   \<and> hd (split_lines
           [67, 104, 97, 112, 116, 101, 114, 32, 49, 32, 68, 97, 119, 110, 10, 65, 65, 65])
       = [67, 104, 97, 112, 116, 101, 114, 32, 49, 32, 68, 97, 119, 110]
   \<and> [67, 104, 97, 112, 116, 101, 114, 32, 49]
       \<noteq> strip [67, 104, 97, 112, 116, 101, 114, 32, 49, 32, 68, 97, 119, 110]"
  by code_simp

text \<open>
  What the title is in general: the stripped text between the start of the line and the
  start of the match, or the stripped match.
\<close>

lemma segment_title:
  assumes "segment content ms = Inr chs" and "i < length chs"
  shows "ch_title (chs ! i) =
    (if strip (slice content (line_start_of content (m_start (ms ! i))) (m_start (ms ! i))) = []
     then strip (m_group0 (ms ! i))
     else strip (slice content (line_start_of content (m_start (ms ! i))) (m_start (ms ! i))))"
  using segment_chapter(3) [OF assms] by (simp add: full_title_line_of_def Let_def)

text \<open>
  Claim C8, as stated: the file names of one run would be pairwise distinct. For the
  content \<open>Chapter 1\<close>, \<open>A\<close>, \<open>Chapter 1\<close>, \<open>B\<close> (four lines, ASCII, read as it is) no
  custom pattern is given, detection chooses \<open>^Chapter\s+(\d+)\<close>, both matches capture
  \<open>1\<close>, and the run writes the same file name twice.
\<close>

theorem repeated_number_repeats_filename:
  "fst (split_chapters
          \<lparr>rt_exists = True,
           rt_bytes = [67, 104, 97, 112, 116, 101, 114, 32, 49, 10, 65, 10,
                       67, 104, 97, 112, 116, 101, 114, 32, 49, 10, 66],
           rt_decodes = (\<lambda>e bs. True), rt_decode = (\<lambda>e bs. bs),
           rt_compile = (\<lambda>p. Inl [])\<rparr>
          None None)
   = [([0x7B2C, 48, 48, 48, 49, 0x7AE0, 46, 109, 100],
         [67, 104, 97, 112, 116, 101, 114, 32, 49, 10, 65]),
      ([0x7B2C, 48, 48, 48, 49, 0x7AE0, 46, 109, 100],
         [67, 104, 97, 112, 116, 101, 114, 32, 49, 10, 66])]
   \<and> \<not> distinct
         [[0x7B2C, 48, 48, 48, 49, 0x7AE0, 46, 109, 100 :: nat],
          [0x7B2C, 48, 48, 48, 49, 0x7AE0, 46, 109, 100]]"
  by code_simp

text \<open>
  Claim C8, amended. In a segmentation that returns, two chapters have the same file name
  exactly when their chapter numbers, filled to width four, are the same; when the pattern
  has no group the chapter numbers are the running count and the file names are pairwise
  distinct.
\<close>

theorem filenames_distinct_by_chapter_number:
  "(segment content ms = Inr chs \<and> i < length chs \<and> j < length chs \<longrightarrow>
      (ch_filename (chs ! i) = ch_filename (chs ! j))
        = (zfill 4 (ch_num (chs ! i)) = zfill 4 (ch_num (chs ! j))))
   \<and> (list_all (\<lambda>m. m_groups m = []) ms \<and> segment content ms = Inr chs \<longrightarrow>
        distinct (map ch_filename chs))"
proof (intro conjI impI)
  assume a: "segment content ms = Inr chs \<and> i < length chs \<and> j < length chs"
  then have "ch_filename (chs ! i) = filename_of (ch_num (chs ! i))"
    and "ch_filename (chs ! j) = filename_of (ch_num (chs ! j))"
    using segment_chapter(1) by blast+
  then show "(ch_filename (chs ! i) = ch_filename (chs ! j))
      = (zfill 4 (ch_num (chs ! i)) = zfill 4 (ch_num (chs ! j)))"
    by (simp add: filename_of_eq)
next
  assume "list_all (\<lambda>m. m_groups m = []) ms \<and> segment content ms = Inr chs"
  then show "distinct (map ch_filename chs)"
    using segment_no_group_distinct by blast
qed

text \<open>
  The content \<open>1 a\<close>, \<open>2 b\<close> (two lines) with the pattern \<open>^\s*\d+\s+\<close>, which has no
  group: two chapters, numbered by count, with two file names.
\<close>

theorem filenames_distinct_by_chapter_number_witness:
  "segment [49, 32, 97, 10, 50, 32, 98] (finditer pat_number [49, 32, 97, 10, 50, 32, 98])
   = Inr [\<lparr>ch_start = 0, ch_end = 4, ch_title = [49], ch_filename = [0x7B2C, 48, 48, 48, 49, 0x7AE0, 46, 109, 100], ch_num = [49]\<rparr>,
          \<lparr>ch_start = 4, ch_end = 7, ch_title = [50], ch_filename = [0x7B2C, 48, 48, 48, 50, 0x7AE0, 46, 109, 100], ch_num = [50]\<rparr>]
   \<and> list_all (\<lambda>m. m_groups m = []) (finditer pat_number [49, 32, 97, 10, 50, 32, 98])
   \<and> distinct
        [[0x7B2C, 48, 48, 48, 49, 0x7AE0, 46, 109, 100 :: nat],
         [0x7B2C, 48, 48, 48, 50, 0x7AE0, 46, 109, 100]]
   \<and> ([0x7B2C, 48, 48, 48, 49, 0x7AE0, 46, 109, 100] = [0x7B2C, 48, 48, 48, 50, 0x7AE0, 46, 109, 100 :: nat])
       = (zfill 4 [49] = zfill 4 [50])"
proof -
  let ?B = "[49, 32, 97, 10, 50, 32, 98] :: ustr"
  let ?cs = "[\<lparr>ch_start = 0, ch_end = 4, ch_title = [49], ch_filename = [0x7B2C, 48, 48, 48, 49, 0x7AE0, 46, 109, 100], ch_num = [49]\<rparr>,
          \<lparr>ch_start = 4, ch_end = 7, ch_title = [50], ch_filename = [0x7B2C, 48, 48, 48, 50, 0x7AE0, 46, 109, 100], ch_num = [50]\<rparr>]"
  have a: "segment ?B (finditer pat_number ?B) = Inr ?cs"
    by code_simp
  have b: "list_all (\<lambda>m. m_groups m = []) (finditer pat_number ?B)"
    by code_simp
  note inst = filenames_distinct_by_chapter_number
    [where content = ?B and ms = "finditer pat_number ?B" and chs = ?cs and i = 0 and j = 1]
  from inst a b have "distinct (map ch_filename ?cs)"
    by blast
  then have c: "distinct
        [[0x7B2C, 48, 48, 48, 49, 0x7AE0, 46, 109, 100 :: nat],
         [0x7B2C, 48, 48, 48, 50, 0x7AE0, 46, 109, 100]]"
    by simp
  from inst a have "(ch_filename (?cs ! 0) = ch_filename (?cs ! 1))
      = (zfill 4 (ch_num (?cs ! 0)) = zfill 4 (ch_num (?cs ! 1)))"
    by simp
  then have d: "([0x7B2C, 48, 48, 48, 49, 0x7AE0, 46, 109, 100] = [0x7B2C, 48, 48, 48, 50, 0x7AE0, 46, 109, 100 :: nat])
       = (zfill 4 [49] = zfill 4 [50])"
    by simp
  show ?thesis
    by (intro conjI a b c d)
qed

section \<open>Properties of detect_chapter_pattern\<close>

lemma matches_some_line_ex:
  "matches_some_line rx lines = list_ex (\<lambda>line. re_match rx (strip line)) lines"
  by (induction lines) simp_all

lemma first_matching_pattern_find:
  "first_matching_pattern ps lines =
     (case find (\<lambda>(pattern, rx). matches_some_line rx lines) ps of
        None \<Rightarrow> (None, [])
      | Some (pattern, rx) \<Rightarrow> (Some rx, pattern))"
  by (induction ps) auto

lemma detect_chapter_pattern_find:
  "detect_chapter_pattern content =
     (case find (\<lambda>(pattern, rx).
                   list_ex (\<lambda>line. re_match rx (strip line)) (take 100 (split_lines content)))
             DEFAULT_PATTERNS of
        None \<Rightarrow> (None, [])
      | Some (pattern, rx) \<Rightarrow> (Some rx, pattern))"
  by (simp add: detect_chapter_pattern_def scanned_lines_def first_matching_pattern_find
      matches_some_line_ex)

lemma detect_chapter_pattern_lines:
  assumes "take 100 (split_lines content) = take 100 (split_lines content')"
  shows "detect_chapter_pattern content = detect_chapter_pattern content'"
  using assms by (simp add: detect_chapter_pattern_def scanned_lines_def)

lemma find_Some_holds: "find P xs = Some a \<Longrightarrow> a \<in> set xs \<and> P a"
  by (induction xs) (auto split: if_splits)

lemma detect_chapter_pattern_None:
  "(detect_chapter_pattern content = (None, [])) =
     (\<not> list_ex (\<lambda>(pattern, rx).
                   list_ex (\<lambda>line. re_match rx (strip line)) (take 100 (split_lines content)))
           DEFAULT_PATTERNS)"
proof -
  let ?P = "\<lambda>(pattern, rx).
    list_ex (\<lambda>line. re_match rx (strip line)) (take 100 (split_lines content))"
  show ?thesis
  proof (cases "find ?P DEFAULT_PATTERNS")
    case None
    then have "\<not> list_ex ?P DEFAULT_PATTERNS"
      unfolding find_None_iff list_ex_iff by blast
    with None show ?thesis
      by (simp add: detect_chapter_pattern_find)
  next
    case (Some a)
    then have "a \<in> set DEFAULT_PATTERNS \<and> ?P a"
      by (rule find_Some_holds)
    then have "list_ex ?P DEFAULT_PATTERNS"
      unfolding list_ex_iff by blast
    with Some show ?thesis
      by (simp add: detect_chapter_pattern_find split: prod.splits)
  qed
qed

lemma split_lines_nonempty: "split_lines s \<noteq> []"
  by (induction s) (simp_all split: list.splits)

lemma first_line_scanned:
  assumes "hd (split_lines content) = line"
  shows "matches_some_line rx (scanned_lines content)
    = (re_match rx (strip line) \<or> matches_some_line rx (tl (scanned_lines content)))"
proof -
  from split_lines_nonempty [of content] assms
  obtain ls where "split_lines content = line # ls"
    by (cases "split_lines content") auto
  then show ?thesis
    by (simp add: scanned_lines_def)
qed

lemma Chapter_1_matches:
  "re_match pat_Chapter (strip [67, 104, 97, 112, 116, 101, 114, 32, 49])"
  by code_simp

lemma detect_chapter_pattern_unfold:
  "detect_chapter_pattern content =
     (if matches_some_line pat_chinese (scanned_lines content)
      then (Some pat_chinese, fst (DEFAULT_PATTERNS ! 0))
      else if matches_some_line pat_arabic (scanned_lines content)
      then (Some pat_arabic, fst (DEFAULT_PATTERNS ! 1))
      else if matches_some_line pat_Chapter (scanned_lines content)
      then (Some pat_Chapter, fst (DEFAULT_PATTERNS ! 2))
      else first_matching_pattern (drop 3 DEFAULT_PATTERNS) (scanned_lines content))"
  by (simp add: detect_chapter_pattern_def DEFAULT_PATTERNS_def)

lemma detect_first_line_Chapter_1:
  assumes "hd (split_lines content) = [67, 104, 97, 112, 116, 101, 114, 32, 49]"
  shows "detect_chapter_pattern content =
     (if list_ex (\<lambda>line. re_match pat_chinese (strip line)) (take 100 (split_lines content))
      then (Some pat_chinese, fst (DEFAULT_PATTERNS ! 0))
      else if list_ex (\<lambda>line. re_match pat_arabic (strip line)) (take 100 (split_lines content))
      then (Some pat_arabic, fst (DEFAULT_PATTERNS ! 1))
      else (Some pat_Chapter, fst (DEFAULT_PATTERNS ! 2)))"
proof -
  have "matches_some_line pat_Chapter (scanned_lines content)"
    using first_line_scanned [OF assms, of pat_Chapter] Chapter_1_matches by simp
  then show ?thesis
    by (simp add: detect_chapter_pattern_unfold)
      (simp add: matches_some_line_ex scanned_lines_def)
qed

text \<open>
  Claim C5, as stated: a document whose first line is \<open>Chapter 1\<close> would always give the
  pattern \<open>^Chapter\s+(\d+)\<close>. For the two lines \<open>Chapter 1\<close> and di, yi, zhang the second
  line matches the first pattern of the list, which is returned.
\<close>

theorem first_line_Chapter_1_other_pattern:
  "hd (split_lines [67, 104, 97, 112, 116, 101, 114, 32, 49, 10, 0x7B2C, 0x4E00, 0x7AE0])
     = [67, 104, 97, 112, 116, 101, 114, 32, 49]
   \<and> detect_chapter_pattern [67, 104, 97, 112, 116, 101, 114, 32, 49, 10, 0x7B2C, 0x4E00, 0x7AE0]
     = (Some pat_chinese, fst (DEFAULT_PATTERNS ! 0))
   \<and> pat_chinese \<noteq> pat_Chapter"
  by code_simp

text \<open>
  Claim C5, amended. Detection looks at the first 100 lines only, and returns the first
  pattern of the list, in the order of the list, that matches the start of one of these
  lines after stripping, with its pattern string; it returns \<open>None\<close> and the empty string
  exactly when no pattern matches any of these lines. For a document whose first line is
  \<open>Chapter 1\<close>, it returns one of the two di-patterns when one of the first 100 lines
  matches it, and otherwise the pattern \<open>^Chapter\s+(\d+)\<close>, the third of the list; so it
  never returns the lower-case pattern, the loose pattern or \<open>None\<close>. For the document that
  is this one line it returns the pattern \<open>^Chapter\s+(\d+)\<close>.
\<close>

theorem detect_chapter_pattern_priority:
  "detect_chapter_pattern content =
     (case find (\<lambda>(pattern, rx).
                   list_ex (\<lambda>line. re_match rx (strip line)) (take 100 (split_lines content)))
             DEFAULT_PATTERNS of
        None \<Rightarrow> (None, [])
      | Some (pattern, rx) \<Rightarrow> (Some rx, pattern))
   \<and> (take 100 (split_lines content) = take 100 (split_lines content')
        \<longrightarrow> detect_chapter_pattern content = detect_chapter_pattern content')
   \<and> (detect_chapter_pattern content = (None, [])) =
       (\<not> list_ex (\<lambda>(pattern, rx).
                     list_ex (\<lambda>line. re_match rx (strip line)) (take 100 (split_lines content)))
             DEFAULT_PATTERNS)
   \<and> map snd DEFAULT_PATTERNS
       = [pat_chinese, pat_arabic, pat_Chapter, pat_chapter, pat_loose, pat_dotted, pat_number]
   \<and> (hd (split_lines content) = [67, 104, 97, 112, 116, 101, 114, 32, 49] \<longrightarrow>
        detect_chapter_pattern content =
          (if list_ex (\<lambda>line. re_match pat_chinese (strip line)) (take 100 (split_lines content))
           then (Some pat_chinese, fst (DEFAULT_PATTERNS ! 0))
           else if list_ex (\<lambda>line. re_match pat_arabic (strip line))
                     (take 100 (split_lines content))
           then (Some pat_arabic, fst (DEFAULT_PATTERNS ! 1))
           else (Some pat_Chapter, fst (DEFAULT_PATTERNS ! 2))))
   \<and> detect_chapter_pattern [67, 104, 97, 112, 116, 101, 114, 32, 49]
       = (Some pat_Chapter, [94, 67, 104, 97, 112, 116, 101, 114, 92, 115, 43, 40, 92, 100, 43, 41])"
proof (intro conjI impI)
  show "detect_chapter_pattern content =
     (case find (\<lambda>(pattern, rx).
                   list_ex (\<lambda>line. re_match rx (strip line)) (take 100 (split_lines content)))
             DEFAULT_PATTERNS of
        None \<Rightarrow> (None, [])
      | Some (pattern, rx) \<Rightarrow> (Some rx, pattern))"
    by (rule detect_chapter_pattern_find)
  show "(detect_chapter_pattern content = (None, [])) =
       (\<not> list_ex (\<lambda>(pattern, rx).
                     list_ex (\<lambda>line. re_match rx (strip line)) (take 100 (split_lines content)))
             DEFAULT_PATTERNS)"
    by (rule detect_chapter_pattern_None)
  show "map snd DEFAULT_PATTERNS
       = [pat_chinese, pat_arabic, pat_Chapter, pat_chapter, pat_loose, pat_dotted, pat_number]"
    by (simp add: DEFAULT_PATTERNS_def)
  show "detect_chapter_pattern [67, 104, 97, 112, 116, 101, 114, 32, 49]
       = (Some pat_Chapter, [94, 67, 104, 97, 112, 116, 101, 114, 92, 115, 43, 40, 92, 100, 43, 41])"
    by code_simp
next
  assume "take 100 (split_lines content) = take 100 (split_lines content')"
  then show "detect_chapter_pattern content = detect_chapter_pattern content'"
    by (rule detect_chapter_pattern_lines)
next
  assume "hd (split_lines content) = [67, 104, 97, 112, 116, 101, 114, 32, 49]"
  then show "detect_chapter_pattern content =
          (if list_ex (\<lambda>line. re_match pat_chinese (strip line)) (take 100 (split_lines content))
           then (Some pat_chinese, fst (DEFAULT_PATTERNS ! 0))
           else if list_ex (\<lambda>line. re_match pat_arabic (strip line))
                     (take 100 (split_lines content))
           then (Some pat_arabic, fst (DEFAULT_PATTERNS ! 1))
           else (Some pat_Chapter, fst (DEFAULT_PATTERNS ! 2)))"
    by (rule detect_first_line_Chapter_1)
qed

text \<open>
  Two documents that agree on their first 100 lines (100 empty lines) and differ in line
  101, where the first has the heading di, yi, zhang: for both nothing is detected. And the
  document \<open>Chapter 1\<close>, \<open>AAA\<close> (two lines), none of whose lines matches a di-pattern.
\<close>

theorem detect_chapter_pattern_priority_witness:
  "take 100 (split_lines (replicate 100 10 @ [0x7B2C, 0x4E00, 0x7AE0]))
     = take 100 (split_lines (replicate 100 10 @ [65]))
   \<and> detect_chapter_pattern (replicate 100 10 @ [0x7B2C, 0x4E00, 0x7AE0])
     = detect_chapter_pattern (replicate 100 10 @ [65])
   \<and> detect_chapter_pattern (replicate 100 10 @ [65]) = (None, [])
   \<and> hd (split_lines [67, 104, 97, 112, 116, 101, 114, 32, 49, 10, 65, 65, 65])
     = [67, 104, 97, 112, 116, 101, 114, 32, 49]
   \<and> detect_chapter_pattern [67, 104, 97, 112, 116, 101, 114, 32, 49, 10, 65, 65, 65]
     = (Some pat_Chapter, fst (DEFAULT_PATTERNS ! 2))"
proof -
  let ?X = "replicate 100 10 @ [0x7B2C, 0x4E00, 0x7AE0] :: ustr"
  let ?Y = "replicate 100 10 @ [65] :: ustr"
  let ?A = "[67, 104, 97, 112, 116, 101, 114, 32, 49, 10, 65, 65, 65] :: ustr"
  have a: "take 100 (split_lines ?X) = take 100 (split_lines ?Y)"
    by code_simp
  have b: "detect_chapter_pattern ?X = detect_chapter_pattern ?Y"
    using detect_chapter_pattern_priority [where content = ?X and content' = ?Y] a
    by blast
  have c: "detect_chapter_pattern ?Y = (None, [])"
    by code_simp
  have d: "hd (split_lines ?A) = [67, 104, 97, 112, 116, 101, 114, 32, 49]"
    by code_simp
  have e: "\<not> list_ex (\<lambda>line. re_match pat_chinese (strip line)) (take 100 (split_lines ?A))"
    "\<not> list_ex (\<lambda>line. re_match pat_arabic (strip line)) (take 100 (split_lines ?A))"
    by code_simp+
  have "hd (split_lines ?A) = [67, 104, 97, 112, 116, 101, 114, 32, 49] \<longrightarrow>
        detect_chapter_pattern ?A =
          (if list_ex (\<lambda>line. re_match pat_chinese (strip line)) (take 100 (split_lines ?A))
           then (Some pat_chinese, fst (DEFAULT_PATTERNS ! 0))
           else if list_ex (\<lambda>line. re_match pat_arabic (strip line))
                     (take 100 (split_lines ?A))
           then (Some pat_arabic, fst (DEFAULT_PATTERNS ! 1))
           else (Some pat_Chapter, fst (DEFAULT_PATTERNS ! 2)))"
    by (rule conjunct1 [OF conjunct2 [OF conjunct2 [OF conjunct2 [OF conjunct2
          [OF detect_chapter_pattern_priority [where content = ?A]]]]]])
  with d e have f: "detect_chapter_pattern ?A = (Some pat_Chapter, fst (DEFAULT_PATTERNS ! 2))"
    by simp
  show ?thesis
    by (intro conjI a b c d f)
qed

section \<open>The errors of split_chapters\<close>

lemma detected_matches_Inl:
  "(detected_matches content = Inl e)
     = (e = ValueError_no_pattern \<and> fst (detect_chapter_pattern content) = None)"
  by (cases "detect_chapter_pattern content")
    (auto simp: detected_matches_def split: option.splits)

lemma custom_matches_Inl:
  "(custom_matches rt p content = Inl e)
     = (\<exists>msg. rt_compile rt p = Inl msg \<and> e = ValueError_invalid_pattern msg)"
  by (auto simp: custom_matches_def split: sum.splits)

lemma find_matches_Inl:
  "(find_matches rt custom_pattern content = Inl e)
     = ((custom_pattern = None \<or> custom_pattern = Some [])
          \<and> e = ValueError_no_pattern \<and> fst (detect_chapter_pattern content) = None
        \<or> (\<exists>p msg. custom_pattern = Some p \<and> p \<noteq> [] \<and> rt_compile rt p = Inl msg
              \<and> e = ValueError_invalid_pattern msg))"
  by (cases custom_pattern)
    (auto simp: find_matches_def detected_matches_Inl custom_matches_Inl)

lemma segment_Inl: "segment content ms = Inl e \<Longrightarrow> e = AttributeError"
  using build_chapters_Inl [of content ms "[]" e] by (simp add: segment_build)

lemma split_chapters_exists:
  assumes "rt_exists rt"
  shows "split_chapters rt custom_pattern encoding =
     (case find_matches rt custom_pattern (content_read rt encoding) of
        Inl e \<Rightarrow> ([], Inl e)
      | Inr (chapter_matches, pattern_desc) \<Rightarrow>
          (case segment (content_read rt encoding) chapter_matches of
             Inl e \<Rightarrow> ([], Inl e)
           | Inr chapters \<Rightarrow>
               (map (chapter_file (content_read rt encoding)) chapters,
                Inr \<lparr>pattern_used = pattern_desc,
                     encoding_used =
                       (case encoding of
                          None \<Rightarrow> detect_encoding (rt_decodes rt) (rt_bytes rt)
                        | Some e \<Rightarrow> e),
                     chapters_found = length chapters,
                     files_created = map ch_filename chapters\<rparr>)))"
  unfolding split_chapters_def content_read_def Let_def using assms by simp

text \<open>
  The three errors the source raises itself, and what has been written when an error is
  raised: the path does not exist; a custom pattern is given and does not compile (the
  message is passed on, and detection is not tried); no custom pattern is given and
  detection finds nothing. With a custom pattern the error of detection does not occur.
  Whatever the error, no file has been written.
\<close>

lemma split_chapters_errors:
  shows "(snd (split_chapters rt custom_pattern encoding) = Inl FileNotFoundError)
      = (\<not> rt_exists rt)"
    and "(snd (split_chapters rt custom_pattern encoding) = Inl (ValueError_invalid_pattern msg))
      = (rt_exists rt \<and> (\<exists>p. custom_pattern = Some p \<and> p \<noteq> [] \<and> rt_compile rt p = Inl msg))"
    and "(snd (split_chapters rt custom_pattern encoding) = Inl ValueError_no_pattern)
      = (rt_exists rt \<and> (custom_pattern = None \<or> custom_pattern = Some [])
          \<and> fst (detect_chapter_pattern (content_read rt encoding)) = None)"
    and "snd (split_chapters rt custom_pattern encoding) = Inl e
      \<Longrightarrow> fst (split_chapters rt custom_pattern encoding) = []"
proof -
  let ?c = "content_read rt encoding"
  let ?r = "split_chapters rt custom_pattern encoding"
  have no: "\<not> rt_exists rt \<Longrightarrow> ?r = ([], Inl FileNotFoundError)"
    by (simp add: split_chapters_def)
  have fm: "snd ?r = Inl e'" if "rt_exists rt" "find_matches rt custom_pattern ?c = Inl e'" for e'
    using that by (simp add: split_chapters_exists)
  have sg: "snd ?r = Inl AttributeError \<or> (\<exists>res. snd ?r = Inr res)"
    if "rt_exists rt" "find_matches rt custom_pattern ?c = Inr x" for x
  proof (cases x)
    case (Pair ms desc)
    show ?thesis
    proof (cases "segment ?c ms")
      case (Inl e')
      with segment_Inl have "e' = AttributeError" by blast
      with Inl Pair that show ?thesis by (simp add: split_chapters_exists)
    next
      case (Inr chs)
      with Pair that show ?thesis by (simp add: split_chapters_exists)
    qed
  qed
  show "(snd ?r = Inl FileNotFoundError) = (\<not> rt_exists rt)"
  proof (cases "rt_exists rt")
    case False
    with no show ?thesis by simp
  next
    case True
    show ?thesis
    proof (cases "find_matches rt custom_pattern ?c")
      case (Inl e')
      then have "e' \<noteq> FileNotFoundError"
        by (auto simp: find_matches_Inl)
      with fm [OF True Inl] True show ?thesis by simp
    next
      case (Inr x)
      with sg [OF True Inr] True show ?thesis by auto
    qed
  qed
  show "(snd ?r = Inl (ValueError_invalid_pattern msg))
      = (rt_exists rt \<and> (\<exists>p. custom_pattern = Some p \<and> p \<noteq> [] \<and> rt_compile rt p = Inl msg))"
  proof (cases "rt_exists rt")
    case False
    with no show ?thesis by simp
  next
    case True
    show ?thesis
    proof (cases "find_matches rt custom_pattern ?c")
      case (Inl e')
      from fm [OF True Inl] have "snd ?r = Inl e'" .
      moreover from Inl have "(e' = ValueError_invalid_pattern msg)
        = (\<exists>p. custom_pattern = Some p \<and> p \<noteq> [] \<and> rt_compile rt p = Inl msg)"
        by (auto simp: find_matches_Inl)
      ultimately show ?thesis using True by simp
    next
      case (Inr x)
      then have "\<not> (\<exists>p. custom_pattern = Some p \<and> p \<noteq> [] \<and> rt_compile rt p = Inl msg)"
        by (auto simp: find_matches_def custom_matches_def)
      with sg [OF True Inr] True show ?thesis by auto
    qed
  qed
  show "(snd ?r = Inl ValueError_no_pattern)
      = (rt_exists rt \<and> (custom_pattern = None \<or> custom_pattern = Some [])
          \<and> fst (detect_chapter_pattern ?c) = None)"
  proof (cases "rt_exists rt")
    case False
    with no show ?thesis by simp
  next
    case True
    show ?thesis
    proof (cases "find_matches rt custom_pattern ?c")
      case (Inl e')
      from fm [OF True Inl] have "snd ?r = Inl e'" .
      moreover from Inl have "(e' = ValueError_no_pattern)
        = ((custom_pattern = None \<or> custom_pattern = Some [])
            \<and> fst (detect_chapter_pattern ?c) = None)"
        by (auto simp: find_matches_Inl)
      ultimately show ?thesis using True by simp
    next
      case (Inr x)
      have "\<not> ((custom_pattern = None \<or> custom_pattern = Some [])
            \<and> fst (detect_chapter_pattern ?c) = None)"
      proof
        assume "(custom_pattern = None \<or> custom_pattern = Some [])
            \<and> fst (detect_chapter_pattern ?c) = None"
        then have "find_matches rt custom_pattern ?c = Inl ValueError_no_pattern"
          by (simp add: find_matches_Inl)
        with Inr show False by simp
      qed
      with sg [OF True Inr] True show ?thesis by auto
    qed
  qed
  show "fst ?r = []" if "snd ?r = Inl e"
  proof (cases "rt_exists rt")
    case False
    with no show ?thesis by simp
  next
    case True
    with that show ?thesis
      by (auto simp: split_chapters_exists split: sum.splits prod.splits)
  qed
qed

text \<open>
  Claim C4. The errors are to be the three above and no other. There is a fourth: the
  path exists, the custom pattern \<open>(x)?y\<close> is given and compiles, and on the content \<open>y\<close>
  its one match has a first group that is \<open>None\<close>; the run raises \<open>AttributeError\<close>, which
  is none of the three. No file has been written then either.
\<close>

theorem split_chapters_raises_fourth_error:
  "split_chapters
     \<lparr>rt_exists = True, rt_bytes = [121],
      rt_decodes = (\<lambda>e bs. True), rt_decode = (\<lambda>e bs. bs),
      rt_compile =
        (\<lambda>p. Inr (\<lambda>content. [\<lparr>m_start = 0, m_group0 = [121], m_groups = [None]\<rparr>]))\<rparr>
     (Some [40, 120, 41, 63, 121]) None
   = ([], Inl AttributeError)"
  by code_simp

end
